theory Spec2Isabelle
  imports Main "HOL-Library.Sublist"
begin

section \<open>Strings\<close>

text \<open>
  A JavaScript string is a sequence of UTF-16 code units. The development models the code
  units below 256 (ASCII and Latin-1), that is, \<^typ>\<open>char\<close>; \<open>length\<close>, \<open>take\<close> and
  \<open>drop\<close> count code units, as \<open>String.prototype.length\<close> and \<open>substring\<close> do.
\<close>

definition code_unit :: "char \<Rightarrow> nat" where
  "code_unit c = of_char c"

definition isUpper :: "char \<Rightarrow> bool" where
  \<comment> \<open>the character class \<open>[A-Z]\<close>\<close>
  "isUpper c = (65 \<le> code_unit c \<and> code_unit c \<le> 90)"

definition isWord :: "char \<Rightarrow> bool" where
  \<comment> \<open>the character class \<open>\w\<close>, which is \<open>[A-Za-z0-9_]\<close>\<close>
  "isWord c = (let n = code_unit c in
     (65 \<le> n \<and> n \<le> 90) \<or> (97 \<le> n \<and> n \<le> 122) \<or> (48 \<le> n \<and> n \<le> 57) \<or> n = 95)"

definition isSpace :: "char \<Rightarrow> bool" where
  \<comment> \<open>the character class \<open>\s\<close> below 256: TAB, LF, VT, FF, CR, SPACE, NBSP\<close>
  "isSpace c = (let n = code_unit c in (9 \<le> n \<and> n \<le> 13) \<or> n = 32 \<or> n = 160)"

definition toLowerChar :: "char \<Rightarrow> char" where
  "toLowerChar c = (let n = code_unit c in
     if (65 \<le> n \<and> n \<le> 90) \<or> (192 \<le> n \<and> n \<le> 222 \<and> n \<noteq> 215)
     then char_of (n + 32) else c)"

definition toLowerCase :: "string \<Rightarrow> string" where
  "toLowerCase s = map toLowerChar s"

definition startsWith :: "string \<Rightarrow> string \<Rightarrow> bool" where
  "startsWith s p = prefix p s"

definition endsWith :: "string \<Rightarrow> string \<Rightarrow> bool" where
  "endsWith s p = suffix p s"

fun includesStr :: "string \<Rightarrow> string \<Rightarrow> bool" where
  "includesStr [] p = (p = [])"
| "includesStr (c # cs) p = (prefix p (c # cs) \<or> includesStr cs p)"

definition substring0 :: "string \<Rightarrow> nat \<Rightarrow> string" where
  \<comment> \<open>\<open>s.substring(0, n)\<close>\<close>
  "substring0 s n = take n s"

definition stripSuffix :: "string \<Rightarrow> string \<Rightarrow> string" where
  \<comment> \<open>\<open>s.replace(/suf$/, "")\<close> for a literal \<open>suf\<close>\<close>
  "stripSuffix suf s = (if suffix suf s then take (length s - length suf) s else s)"

fun splitOn :: "char \<Rightarrow> string \<Rightarrow> string list" where
  \<comment> \<open>\<open>s.split(c)\<close> for a one-character separator: never the empty list\<close>
  "splitOn sep [] = [[]]"
| "splitOn sep (c # cs) =
     (if c = sep then [] # splitOn sep cs
      else (case splitOn sep cs of [] \<Rightarrow> [[c]] | p # ps \<Rightarrow> (c # p) # ps))"

section \<open>Regular expressions\<close>

text \<open>
  The regular expressions of the program are sequences of literals, quantified character
  classes, alternatives of literals and one capture group. They are matched as JavaScript
  matches them, by backtracking: a greedy quantifier tries the longer repetition first, a
  lazy one the shorter, an alternative its branches from left to right, and the first
  match found in that order is the result.
\<close>

datatype cclass = Word | Space | AnyChar | WordOrDot | Only char

fun in_class :: "cclass \<Rightarrow> char \<Rightarrow> bool" where
  "in_class Word c = isWord c"
| "in_class Space c = isSpace c"
| "in_class AnyChar c = True"
| "in_class WordOrDot c = (isWord c \<or> c = CHR ''.'')"
| "in_class (Only d) c = (c = d)"

datatype rx =
    Lit string
  | Rep cclass nat "nat option" bool
      \<comment> \<open>class, least and greatest number of repetitions, greedy\<close>
  | Alt "string list"
  | GroupOpen
  | GroupClose

fun dec :: "nat option \<Rightarrow> nat option" where
  "dec None = None"
| "dec (Some n) = Some (n - 1)"

fun rep :: "cclass \<Rightarrow> nat \<Rightarrow> nat option \<Rightarrow> bool \<Rightarrow> (string \<Rightarrow> 'a option) \<Rightarrow> string \<Rightarrow> 'a option" where
  "rep c lo hi g k [] = (if lo = 0 then k [] else None)"
| "rep c lo hi g k (x # xs) =
     (if 0 < lo then
        (if in_class c x \<and> hi \<noteq> Some 0 then rep c (lo - 1) (dec hi) g k xs else None)
      else if g then
        (case (if in_class c x \<and> hi \<noteq> Some 0 then rep c 0 (dec hi) g k xs else None) of
           Some r \<Rightarrow> Some r
         | None \<Rightarrow> k (x # xs))
      else
        (case k (x # xs) of
           Some r \<Rightarrow> Some r
         | None \<Rightarrow> (if in_class c x \<and> hi \<noteq> Some 0 then rep c 0 (dec hi) g k xs else None)))"

fun alts :: "string list \<Rightarrow> (string \<Rightarrow> 'a option) \<Rightarrow> string \<Rightarrow> 'a option" where
  "alts [] k s = None"
| "alts (l # ls) k s =
     (case (if prefix l s then k (drop (length l) s) else None) of
        Some r \<Rightarrow> Some r
      | None \<Rightarrow> alts ls k s)"

text \<open>
  \<open>matchHere p (opened, cap) s\<close> matches the items \<open>p\<close> at the start of \<open>s\<close>; \<open>opened\<close> is the
  input where the capture group began and \<open>cap\<close> the text of the group. The result is the
  text of the group and the input left after the match.
\<close>

primrec matchHere :: "rx list \<Rightarrow> string \<times> string \<Rightarrow> string \<Rightarrow> (string \<times> string) option" where
  "matchHere [] st s = Some (snd st, s)"
| "matchHere (i # is) st s =
     (case i of
        Lit l \<Rightarrow> (if prefix l s then matchHere is st (drop (length l) s) else None)
      | Rep c lo hi g \<Rightarrow> rep c lo hi g (matchHere is st) s
      | Alt ls \<Rightarrow> alts ls (matchHere is st) s
      | GroupOpen \<Rightarrow> matchHere is (s, snd st) s
      | GroupClose \<Rightarrow> matchHere is (fst st, take (length (fst st) - length s) (fst st)) s)"

text \<open>
  Every regular expression of the program begins with a literal character. A pattern is
  that character and the items after it, so a match is never empty.
\<close>

type_synonym regex = "char \<times> rx list"

fun exec :: "regex \<Rightarrow> string \<Rightarrow> (string \<times> string) option" where
  \<comment> \<open>\<open>re.exec(s)\<close>: the leftmost match at or after the start of \<open>s\<close>\<close>
  "exec p [] = None"
| "exec p (x # xs) =
     (case (if x = fst p then matchHere (snd p) ([], []) xs else None) of
        Some r \<Rightarrow> Some r
      | None \<Rightarrow> exec p xs)"

text \<open>
  A match never leaves more input than it was given, and \<open>exec\<close> consumes at least the
  leading character: the loop \<open>while ((match = re.exec(content)) !== null)\<close> terminates.
\<close>

lemma rep_shrinks:
  assumes "\<And>s. k s = Some (cap, rest) \<Longrightarrow> length rest \<le> length s"
  shows "rep c lo hi g k s = Some (cap, rest) \<Longrightarrow> length rest \<le> length s"
proof (induction s arbitrary: lo hi)
  case Nil
  then show ?case using assms[of "[]"] by (auto split: if_splits)
next
  case (Cons x xs)
  then show ?case using assms[of "x # xs"]
    by (fastforce split: if_splits option.splits)
qed

lemma alts_shrinks:
  assumes "\<And>s. k s = Some (cap, rest) \<Longrightarrow> length rest \<le> length s"
  shows "alts ls k s = Some (cap, rest) \<Longrightarrow> length rest \<le> length s"
proof (induction ls)
  case Nil
  then show ?case by simp
next
  case (Cons l ls)
  then show ?case using assms[of "drop (length l) s"]
    by (auto split: if_splits option.splits)
qed

lemma matchHere_shrinks:
  "matchHere p st s = Some (cap, rest) \<Longrightarrow> length rest \<le> length s"
proof (induction p arbitrary: st s)
  case Nil
  then show ?case by auto
next
  case (Cons i p)
  have k: "\<And>st s. matchHere p st s = Some (cap, rest) \<Longrightarrow> length rest \<le> length s"
    using Cons.IH by blast
  show ?case
  proof (cases i)
    case (Lit l)
    with Cons.prems k[where s="drop (length l) s" and st=st] show ?thesis
      by (auto split: if_splits)
  next
    case (Rep c lo hi g)
    with Cons.prems show ?thesis
      using rep_shrinks[where k="matchHere p st" and cap=cap and rest=rest] k by auto
  next
    case (Alt ls)
    with Cons.prems show ?thesis
      using alts_shrinks[where k="matchHere p st" and cap=cap and rest=rest] k by auto
  next
    case GroupOpen
    with Cons.prems k show ?thesis by auto
  next
    case GroupClose
    with Cons.prems k show ?thesis by auto
  qed
qed

lemma exec_advances: "exec p s = Some (cap, rest) \<Longrightarrow> length rest < length s"
proof (induction s)
  case Nil
  then show ?case by simp
next
  case (Cons x xs)
  then show ?case using matchHere_shrinks[where p="snd p" and s=xs and cap=cap and rest=rest and st="([], [])"]
    by (auto split: if_splits option.splits)
qed

text \<open>
  \<open>execAll re s\<close> is the list of the values \<open>match[1]\<close> that the loop
  \<open>while ((match = re.exec(s)) !== null)\<close> sees for a regular expression with the flag
  \<open>g\<close>: each search starts where the match before it ended.
\<close>

function execAll :: "regex \<Rightarrow> string \<Rightarrow> string list" where
  "execAll p s = (case exec p s of None \<Rightarrow> [] | Some (cap, rest) \<Rightarrow> cap # execAll p rest)"
  by pat_completeness auto
termination
  by (relation "measure (\<lambda>(p, s). length s)") (auto dest: exec_advances)

declare execAll.simps [simp del]

section \<open>Data model\<close>

record CodeFile =
  name :: string
  path :: string
  content :: string
  language :: string
  size_bytes :: int  \<comment> \<open>the field \<open>size\<close>\<close>

datatype source = client_class | config | import_stmt | di

datatype confidence = high | medium | low

record Dependency =
  serviceName :: string
  source :: source
  confidence :: confidence
  evidence :: string

record ServiceAnalysis =
  ownServiceName :: string  \<comment> \<open>the field \<open>serviceName\<close> of \<open>ServiceAnalysis\<close>\<close>
  dependencies :: "Dependency list"

section \<open>The regular expressions of the program\<close>

definition providesPattern :: regex where
  \<comment> \<open>\<open>/@Provides[\s\S]{0,200}?public\s+(\w+(?:Client|Service|Lambda|Authority))\s+\w+/g\<close>\<close>
  "providesPattern = (CHR ''@'',
     [Lit ''Provides'', Rep AnyChar 0 (Some 200) False, Lit ''public'', Rep Space 1 None True,
      GroupOpen, Rep Word 1 None True, Alt [''Client'', ''Service'', ''Lambda'', ''Authority''],
      GroupClose, Rep Space 1 None True, Rep Word 1 None True])"

definition clientBuilderPattern :: regex where
  \<comment> \<open>\<open>/new\s+ClientBuilder\(\)[\s\S]{0,100}?\.remoteOf\((\w+)\.class\)/g\<close>\<close>
  "clientBuilderPattern = (CHR ''n'',
     [Lit ''ew'', Rep Space 1 None True, Lit ''ClientBuilder()'',
      Rep AnyChar 0 (Some 100) False, Lit ''.remoteOf('',
      GroupOpen, Rep Word 1 None True, GroupClose, Lit ''.class)''])"

definition cliImportPattern :: regex where
  \<comment> \<open>\<open>/import\s+[\w.]+\.(\w+(?:Client|Service|Lambda|Authority))\s*;/g\<close>\<close>
  "cliImportPattern = (CHR ''i'',
     [Lit ''mport'', Rep Space 1 None True, Rep WordOrDot 1 None True, Lit ''.'',
      GroupOpen, Rep Word 1 None True, Alt [''Client'', ''Service'', ''Lambda'', ''Authority''],
      GroupClose, Rep Space 0 None True, Lit '';''])"

definition javaImportPattern :: regex where
  \<comment> \<open>\<open>/import\s+[\w.]+\.(\w+(?:Client|Service|Lambda|Authority|Resource))\s*;/g\<close>\<close>
  "javaImportPattern = (CHR ''i'',
     [Lit ''mport'', Rep Space 1 None True, Rep WordOrDot 1 None True, Lit ''.'',
      GroupOpen, Rep Word 1 None True,
      Alt [''Client'', ''Service'', ''Lambda'', ''Authority'', ''Resource''],
      GroupClose, Rep Space 0 None True, Lit '';''])"

definition pythonImportPattern :: regex where
  \<comment> \<open>\<open>/from\s+[\w.]+\s+import\s+(\w+(?:Client|Service))/g\<close>\<close>
  "pythonImportPattern = (CHR ''f'',
     [Lit ''rom'', Rep Space 1 None True, Rep WordOrDot 1 None True, Rep Space 1 None True,
      Lit ''import'', Rep Space 1 None True,
      GroupOpen, Rep Word 1 None True, Alt [''Client'', ''Service''], GroupClose])"

definition jsImportPattern :: regex where
  \<comment> \<open>\<open>/import\s+\{?\s*(\w+(?:Client|Service))\s*\}?\s+from/g\<close>\<close>
  "jsImportPattern = (CHR ''i'',
     [Lit ''mport'', Rep Space 1 None True, Rep (Only CHR ''{'') 0 (Some 1) True,
      Rep Space 0 None True,
      GroupOpen, Rep Word 1 None True, Alt [''Client'', ''Service''], GroupClose,
      Rep Space 0 None True, Rep (Only CHR ''}'') 0 (Some 1) True, Rep Space 1 None True,
      Lit ''from''])"

section \<open>Name validation\<close>

definition basicTypes :: "string list" where
  "basicTypes = [''String'', ''Integer'', ''Boolean'', ''Object'', ''List'', ''Map'', ''Set'',
     ''Array'', ''Http'', ''Rest'', ''Json'', ''Xml'', ''Builder'']"

definition startsUpper :: "string \<Rightarrow> bool" where
  \<comment> \<open>\<open>/^[A-Z]/.test(name)\<close>\<close>
  "startsUpper s = (case s of [] \<Rightarrow> False | c # _ \<Rightarrow> isUpper c)"

definition isValidServiceName :: "string \<Rightarrow> bool" where
  "isValidServiceName n =
     (length n > 2 \<and> length n < 100 \<and> startsUpper n
      \<and> n \<notin> set basicTypes
      \<and> \<not> endsWith n ''Builder''
      \<and> \<not> endsWith n ''Factory''
      \<and> \<not> endsWith n ''Utils''
      \<and> \<not> endsWith n ''Helper'')"

definition cliLengthOk :: "string \<Rightarrow> bool" where
  \<comment> \<open>the check of the command-line copy: \<open>depName.length > 2 && depName.length < 100\<close>\<close>
  "cliLengthOk n = (length n > 2 \<and> length n < 100)"

section \<open>Extraction\<close>

text \<open>
  Every extraction loop of the program has one shape: for each match of a regular
  expression, clean the captured class name, test the cleaned name and push a record.
\<close>

definition collect ::
  "regex \<Rightarrow> (string \<Rightarrow> string) \<Rightarrow> (string \<Rightarrow> bool) \<Rightarrow> source \<Rightarrow> confidence
     \<Rightarrow> (string \<Rightarrow> string) \<Rightarrow> string \<Rightarrow> Dependency list" where
  "collect re clean ok src conf ev text =
     map (\<lambda>cls. \<lparr>serviceName = clean cls, source = src, confidence = conf, evidence = ev cls\<rparr>)
       (filter (\<lambda>cls. ok (clean cls)) (execAll re text))"

definition foundIn :: "CodeFile \<Rightarrow> string \<Rightarrow> string \<Rightarrow> string" where
  "foundIn file what cls = ''Found in '' @ name file @ '': '' @ what @ cls"

definition extractJavaDependencies :: "CodeFile \<Rightarrow> Dependency list" where
  "extractJavaDependencies file =
     collect providesPattern (stripSuffix ''ServiceClient'' \<circ> stripSuffix ''Client'')
       isValidServiceName client_class high (foundIn file ''@Provides '') (content file)
     @ collect clientBuilderPattern (stripSuffix ''Client'')
       isValidServiceName client_class high
       (\<lambda>cls. foundIn file ''ClientBuilder.remoteOf('' cls @ '')'') (content file)
     @ collect javaImportPattern
       (stripSuffix ''Resource'' \<circ> stripSuffix ''ServiceClient'' \<circ> stripSuffix ''Client'')
       isValidServiceName import_stmt medium (foundIn file ''import '') (content file)"

definition extractPythonDependencies :: "CodeFile \<Rightarrow> Dependency list" where
  "extractPythonDependencies file =
     collect pythonImportPattern (stripSuffix ''Client'')
       isValidServiceName import_stmt high (foundIn file ''import '') (content file)"

definition extractJavaScriptDependencies :: "CodeFile \<Rightarrow> Dependency list" where
  "extractJavaScriptDependencies file =
     collect jsImportPattern (stripSuffix ''Client'')
       isValidServiceName import_stmt high (foundIn file ''import '') (content file)"

definition extractFile :: "string \<Rightarrow> CodeFile \<Rightarrow> Dependency list" where
  \<comment> \<open>the body of the loop of \<open>extractDependencies\<close>\<close>
  "extractFile lang file =
     (if language file = ''java'' \<or> lang = ''java'' then extractJavaDependencies file else [])
     @ (if language file = ''python'' \<or> lang = ''python''
        then extractPythonDependencies file else [])
     @ (if language file = ''typescript'' \<or> language file = ''javascript''
        then extractJavaScriptDependencies file else [])"

definition extractDependencies :: "CodeFile list \<Rightarrow> string \<Rightarrow> Dependency list" where
  "extractDependencies files lang = concat (map (extractFile lang) files)"

definition cliExtractFile :: "CodeFile \<Rightarrow> Dependency list" where
  \<comment> \<open>the body of the first loop of the command-line \<open>analyzeServiceDependencies\<close>\<close>
  "cliExtractFile file =
     (if language file = ''java'' then
        collect providesPattern (stripSuffix ''ServiceClient'' \<circ> stripSuffix ''Client'')
          cliLengthOk client_class high (foundIn file ''@Provides '') (content file)
        @ collect clientBuilderPattern (stripSuffix ''Client'')
          cliLengthOk client_class high
          (\<lambda>cls. foundIn file ''ClientBuilder.remoteOf('' cls @ '')'') (content file)
        @ collect cliImportPattern (stripSuffix ''ServiceClient'' \<circ> stripSuffix ''Client'')
          cliLengthOk import_stmt medium (foundIn file ''import '') (content file)
      else [])"

definition cliExtract :: "CodeFile list \<Rightarrow> Dependency list" where
  "cliExtract files = concat (map cliExtractFile files)"

section \<open>Sorting and insertion-ordered maps\<close>

text \<open>
  \<open>Array.prototype.sort\<close> is stable. For a comparator that orders consistently, the
  result is the one list that is ordered by the comparator and keeps elements that compare
  equal in their former order; \<open>jsSort\<close> computes it by insertion.
\<close>

fun insertBy :: "('a \<Rightarrow> 'a \<Rightarrow> int) \<Rightarrow> 'a \<Rightarrow> 'a list \<Rightarrow> 'a list" where
  "insertBy cmp x [] = [x]"
| "insertBy cmp x (y # ys) = (if cmp x y \<le> 0 then x # y # ys else y # insertBy cmp x ys)"

definition jsSort :: "('a \<Rightarrow> 'a \<Rightarrow> int) \<Rightarrow> 'a list \<Rightarrow> 'a list" where
  "jsSort cmp xs = foldr (insertBy cmp) xs []"

text \<open>
  A \<open>Map\<close> keeps its keys in the order of their first insertion; \<open>set\<close> on a key that is
  present replaces the value where it stands.
\<close>

type_synonym 'v jsmap = "(string \<times> 'v) list"

fun mapGet :: "'v jsmap \<Rightarrow> string \<Rightarrow> 'v option" where
  "mapGet [] k = None"
| "mapGet ((k', v) # m) k = (if k' = k then Some v else mapGet m k)"

fun mapSet :: "string \<Rightarrow> 'v \<Rightarrow> 'v jsmap \<Rightarrow> 'v jsmap" where
  "mapSet k v [] = [(k, v)]"
| "mapSet k v ((k', v') # m) = (if k' = k then (k, v) # m else (k', v') # mapSet k v m)"

definition mapValues :: "'v jsmap \<Rightarrow> 'v list" where
  "mapValues m = map snd m"

section \<open>Deduplication\<close>

fun confidenceRank :: "confidence \<Rightarrow> nat" where
  "confidenceRank high = 3"
| "confidenceRank medium = 2"
| "confidenceRank low = 1"

definition dedupStep :: "Dependency \<Rightarrow> Dependency jsmap \<Rightarrow> Dependency jsmap" where
  \<comment> \<open>the body of the loop of \<open>deduplicateAndClean\<close>\<close>
  "dedupStep dep m =
     (case mapGet m (serviceName dep) of
        None \<Rightarrow> mapSet (serviceName dep) dep m
      | Some existing \<Rightarrow>
          (if confidenceRank (confidence dep) > confidenceRank (confidence existing)
           then mapSet (serviceName dep) dep m else m))"

text \<open>
  \<open>String.prototype.localeCompare\<close> belongs to the host and its locale, not to the
  program: the comparator is a parameter \<open>lc\<close> of everything that sorts by name.
\<close>

definition byName :: "(string \<Rightarrow> string \<Rightarrow> int) \<Rightarrow> Dependency \<Rightarrow> Dependency \<Rightarrow> int" where
  \<comment> \<open>\<open>(a, b) => a.serviceName.localeCompare(b.serviceName)\<close>\<close>
  "byName lc a b = lc (serviceName a) (serviceName b)"

definition deduplicateAndClean ::
  "(string \<Rightarrow> string \<Rightarrow> int) \<Rightarrow> Dependency list \<Rightarrow> Dependency list" where
  "deduplicateAndClean lc deps = jsSort (byName lc) (mapValues (fold dedupStep deps []))"

definition cliDedupStep :: "Dependency \<Rightarrow> Dependency jsmap \<Rightarrow> Dependency jsmap" where
  \<comment> \<open>the body of the second loop of the command-line \<open>analyzeServiceDependencies\<close>\<close>
  "cliDedupStep dep m =
     (case mapGet m (serviceName dep) of
        None \<Rightarrow> mapSet (serviceName dep) dep m
      | Some existing \<Rightarrow>
          (if confidence dep = high \<and> confidence existing \<noteq> high
           then mapSet (serviceName dep) dep m else m))"

definition cliDeduplicate ::
  "(string \<Rightarrow> string \<Rightarrow> int) \<Rightarrow> Dependency list \<Rightarrow> Dependency list" where
  "cliDeduplicate lc deps = jsSort (byName lc) (mapValues (fold cliDedupStep deps []))"

section \<open>Service name\<close>

definition skipNames :: "string list" where
  "skipNames = [''src'', ''main'', ''java'', ''app'', ''lib'', ''pkg'', ''com'', ''amazon'',
     ''internal'']"

definition hasUpper :: "string \<Rightarrow> bool" where
  \<comment> \<open>\<open>/[A-Z]/.test(part)\<close>\<close>
  "hasUpper s = list_ex isUpper s"

fun scanParts :: "(string \<Rightarrow> bool) \<Rightarrow> string list \<Rightarrow> string option" where
  \<comment> \<open>the loop \<open>for (let i = parts.length - 1; i >= 0; i--)\<close>, on the parts from the last
      to the first\<close>
  "scanParts looks [] = None"
| "scanParts looks (part # earlier) =
     (if list_ex (\<lambda>skip. includesStr (toLowerCase part) skip) skipNames
      then scanParts looks earlier
      else if length part > 3 \<and> looks part then Some part
      else scanParts looks earlier)"

definition inferFrom :: "(string \<Rightarrow> bool) \<Rightarrow> CodeFile list \<Rightarrow> string" where
  "inferFrom looks files =
     (case files of
        [] \<Rightarrow> ''UnknownService''
      | first # _ \<Rightarrow>
          (let parts = splitOn CHR ''/'' (path first) in
           case scanParts looks (rev parts) of
             Some part \<Rightarrow> part
           | None \<Rightarrow>
               (case filter (\<lambda>p. p \<noteq> [] \<and> p \<noteq> ''src'') parts of
                  [] \<Rightarrow> ''UnknownService''
                | p # _ \<Rightarrow> p)))"

definition cliLooksLikeService :: "string \<Rightarrow> bool" where
  "cliLooksLikeService part =
     (hasUpper part \<or> includesStr part ''Service'' \<or> includesStr part ''Gateway'')"

definition looksLikeService :: "string \<Rightarrow> bool" where
  "looksLikeService part =
     (hasUpper part \<or> includesStr part ''Service'' \<or> includesStr part ''Gateway''
      \<or> includesStr part ''Lambda'' \<or> includesStr part ''Api'' \<or> includesStr part ''API'')"

definition cliInferServiceName :: "CodeFile list \<Rightarrow> string" where
  "cliInferServiceName files = inferFrom cliLooksLikeService files"

definition inferServiceName :: "CodeFile list \<Rightarrow> string" where
  "inferServiceName files = inferFrom looksLikeService files"

section \<open>Primary language and key files\<close>

text \<open>
  \<open>langCounts\<close> is an object used as a dictionary. For keys that are neither array
  indices nor names that an object inherits from \<open>Object.prototype\<close>, as the language tags
  of \<open>detectLanguage\<close> are, \<open>langCounts[key] || 0\<close> is the count so far and
  \<open>Object.entries\<close> lists the keys in the order of their first insertion; the model covers
  these keys.
\<close>

definition countStep :: "CodeFile \<Rightarrow> int jsmap \<Rightarrow> int jsmap" where
  \<comment> \<open>\<open>langCounts[f.language] = (langCounts[f.language] || 0) + 1\<close>\<close>
  "countStep f m =
     mapSet (language f) ((case mapGet m (language f) of None \<Rightarrow> 0 | Some n \<Rightarrow> n) + 1) m"

definition detectPrimaryLanguage :: "CodeFile list \<Rightarrow> string" where
  "detectPrimaryLanguage files =
     (case jsSort (\<lambda>a b. snd b - snd a) (fold countStep files []) of
        [] \<Rightarrow> ''unknown''
      | (lang, _) # _ \<Rightarrow> (if lang = [] then ''unknown'' else lang))"

definition score :: "CodeFile \<Rightarrow> int" where
  "score file =
     (let p = toLowerCase (path file);
          n = toLowerCase (name file);
          preview = toLowerCase (substring0 (content file) 3000)
      in (if includesStr p ''/module/'' then 15 else 0)
       + (if includesStr p ''/config/'' then 12 else 0)
       + (if includesStr p ''/accessor/'' then 10 else 0)
       + (if includesStr p ''/client/'' then 8 else 0)
       + (if includesStr n ''clientmodule'' then 20 else 0)
       + (if includesStr n ''client'' \<and> includesStr n ''config'' then 15 else 0)
       + (if endsWith n ''module.java'' then 15 else 0)
       + (if endsWith n ''config.java'' then 12 else 0)
       + (if includesStr preview ''@provides'' then 25 else 0)
       + (if includesStr preview ''@bean'' then 25 else 0)
       + (if includesStr preview ''clientbuilder'' then 20 else 0)
       + (if includesStr preview ''client;'' then 5 else 0)
       + (if size_bytes file > 500 \<and> size_bytes file < 100000 then 3 else 0))"

definition scored :: "CodeFile list \<Rightarrow> (CodeFile \<times> int) list" where
  \<comment> \<open>the array \<open>scored\<close> after the loop of \<open>selectKeyFiles\<close>\<close>
  "scored files = filter (\<lambda>s. snd s > 0) (map (\<lambda>file. (file, score file)) files)"

definition selectKeyFiles :: "CodeFile list \<Rightarrow> string \<Rightarrow> CodeFile list" where
  "selectKeyFiles files lang =
     map fst (take 15 (jsSort (\<lambda>a b. snd b - snd a) (scored files)))"

section \<open>The two pipelines\<close>

definition analyzeServiceDependencies ::
  "(string \<Rightarrow> string \<Rightarrow> int) \<Rightarrow> CodeFile list \<Rightarrow> ServiceAnalysis" where
  \<comment> \<open>the library module\<close>
  "analyzeServiceDependencies lc files =
     (let lang = detectPrimaryLanguage files;
          keyFiles = selectKeyFiles files lang
      in \<lparr>ownServiceName = inferServiceName files,
          dependencies = deduplicateAndClean lc (extractDependencies keyFiles lang)\<rparr>)"

definition cliAnalyzeServiceDependencies ::
  "(string \<Rightarrow> string \<Rightarrow> int) \<Rightarrow> CodeFile list \<Rightarrow> ServiceAnalysis" where
  \<comment> \<open>the copy embedded in the command-line tool\<close>
  "cliAnalyzeServiceDependencies lc files =
     \<lparr>ownServiceName = cliInferServiceName files,
      dependencies = cliDeduplicate lc (cliExtract files)\<rparr>"

section \<open>Ignore rules\<close>

definition IGNORE_DIRS :: "string list" where
  \<comment> \<open>the command-line tool and the analysis route\<close>
  "IGNORE_DIRS = [''node_modules'', ''.git'', ''.venv'', ''venv'', ''__pycache__'',
     ''.pytest_cache'', ''dist'', ''build'', ''target'', ''.idea'', ''.vscode'', ''bin'', ''obj'',
     ''.gradle'', ''out'']"

definition IGNORE_PATTERNS :: "string list" where
  \<comment> \<open>the upload component\<close>
  "IGNORE_PATTERNS = [''node_modules'', ''.git'', ''.venv'', ''venv'', ''__pycache__'',
     ''.pytest_cache'', ''dist'', ''build'', ''target'', ''.idea'', ''.vscode'', ''bin'', ''obj'',
     ''.gradle'']"

definition shouldIgnore :: "string \<Rightarrow> bool" where
  "shouldIgnore p =
     list_ex (\<lambda>pattern. includesStr p (''/'' @ pattern @ ''/'') \<or> startsWith p (pattern @ ''/''))
       IGNORE_PATTERNS"

definition UPLOAD_CODE_EXTENSIONS :: "string list" where
  "UPLOAD_CODE_EXTENSIONS = [''.py'', ''.js'', ''.ts'', ''.jsx'', ''.tsx'', ''.java'', ''.go'',
     ''.cpp'', ''.c'', ''.h'', ''.cs'', ''.rb'', ''.php'', ''.swift'', ''.kt'', ''.rs'', ''.scala'',
     ''.sh'', ''.yml'', ''.yaml'', ''.json'', ''.xml'', ''.sql'', ''.proto'', ''.gradle'']"

definition folderUploadKeeps :: "string \<Rightarrow> string \<Rightarrow> int \<Rightarrow> bool" where
  \<comment> \<open>the tests of the loop of \<open>handleFolderUpload\<close> that a file of a path, a name and a
      size passes before its size is counted and its text read\<close>
  "folderUploadKeeps p fname fsize \<longleftrightarrow>
     \<not> shouldIgnore p
     \<and> list_ex (\<lambda>ext. endsWith fname ext) UPLOAD_CODE_EXTENSIONS
     \<and> fsize \<noteq> 0
     \<and> \<not> fsize > 5 * 1024 * 1024"

definition CODE_EXTENSIONS :: "string list" where
  "CODE_EXTENSIONS = [''.java'', ''.py'', ''.ts'', ''.js'', ''.jsx'', ''.tsx'', ''.go'', ''.cpp'',
     ''.c'', ''.h'', ''.cs'', ''.rb'', ''.php'', ''.swift'', ''.kt'', ''.rs'', ''.scala'']"

definition languageMap :: "(string \<times> string) list" where
  "languageMap = [(''.py'', ''python''), (''.js'', ''javascript''), (''.ts'', ''typescript''),
     (''.jsx'', ''javascript''), (''.tsx'', ''typescript''), (''.java'', ''java''), (''.go'', ''go''),
     (''.cpp'', ''cpp''), (''.c'', ''c''), (''.rb'', ''ruby''), (''.php'', ''php''),
     (''.swift'', ''swift''), (''.kt'', ''kotlin''), (''.rs'', ''rust''), (''.cs'', ''csharp'')]"

definition detectLanguage :: "string \<Rightarrow> string" where
  "detectLanguage ext = (case map_of languageMap ext of Some tag \<Rightarrow> tag | None \<Rightarrow> ''text'')"

definition extensionOf :: "string \<Rightarrow> string" where
  \<comment> \<open>\<open>name.substring(name.lastIndexOf("."))\<close>; without a dot, \<open>substring(-1)\<close> is the name\<close>
  "extensionOf n =
     (if CHR ''.'' \<in> set n then CHR ''.'' # rev (takeWhile (\<lambda>c. c \<noteq> CHR ''.'') (rev n)) else n)"

text \<open>
  A directory tree, as \<open>readdirSync\<close>, \<open>statSync\<close> and \<open>readFileSync\<close> show it: a file has a
  name and, unless \<open>statSync\<close> or \<open>readFileSync\<close> throws, a size and a text; a directory has
  a name and entries (a directory that cannot be read is one without entries: \<open>readdirSync\<close>
  throws before the loop, and \<open>scanDirectory\<close> returns the empty list). \<open>scanDirectory rel\<close>
  scans the entries of the directory whose path relative to the root is \<open>rel\<close>.
\<close>

datatype fsEntry =
    File string "(int \<times> string) option"
  | Dir string "fsEntry list"

definition joinPath :: "string \<Rightarrow> string \<Rightarrow> string" where
  "joinPath rel n = (if rel = [] then n else rel @ ''/'' @ n)"

fun scanEntry :: "string \<Rightarrow> fsEntry \<Rightarrow> CodeFile list"
  and scanDirectory :: "string \<Rightarrow> fsEntry list \<Rightarrow> CodeFile list" where
  "scanEntry rel (Dir n entries) =
     (if n \<in> set IGNORE_DIRS then [] else scanDirectory (joinPath rel n) entries)"
| "scanEntry rel (File n st) =
     (if \<not> list_ex (\<lambda>ext. endsWith n ext) CODE_EXTENSIONS then []
      else case st of
        None \<Rightarrow> []
      | Some (sz, text) \<Rightarrow>
          if sz > 5 * 1024 * 1024 then []
          else if sz = 0 then []
          else [\<lparr>name = n, path = joinPath rel n, content = text,
                 language = detectLanguage (extensionOf n), size_bytes = sz\<rparr>])"
| "scanDirectory rel [] = []"
| "scanDirectory rel (e # es) = scanEntry rel e @ scanDirectory rel es"

text \<open>\<open>pruneAll\<close> removes every directory with an ignored name, and all that is under it.\<close>

fun prune :: "fsEntry \<Rightarrow> fsEntry list"
  and pruneAll :: "fsEntry list \<Rightarrow> fsEntry list" where
  "prune (File n st) = [File n st]"
| "prune (Dir n entries) = (if n \<in> set IGNORE_DIRS then [] else [Dir n (pruneAll entries)])"
| "pruneAll [] = []"
| "pruneAll (e # es) = prune e @ pruneAll es"

section \<open>Concrete comparators and inputs\<close>

fun codeUnitCompare :: "string \<Rightarrow> string \<Rightarrow> int" where
  \<comment> \<open>the order of the code units, as the operator \<open><\<close> on strings gives it\<close>
  "codeUnitCompare [] [] = 0"
| "codeUnitCompare [] (y # ys) = - 1"
| "codeUnitCompare (x # xs) [] = 1"
| "codeUnitCompare (x # xs) (y # ys) =
     (if code_unit x < code_unit y then - 1
      else if code_unit y < code_unit x then 1
      else codeUnitCompare xs ys)"

definition letterCompare :: "string \<Rightarrow> string \<Rightarrow> int" where
  \<comment> \<open>the order of a locale collation on names made of unaccented Latin letters: letters
      are compared without regard to case first; between names that differ in case only,
      the lower-case letter comes first\<close>
  "letterCompare a b =
     (let r = codeUnitCompare (toLowerCase a) (toLowerCase b)
      in if r \<noteq> 0 then r else codeUnitCompare b a)"

definition scenarioFile :: CodeFile where
  "scenarioFile =
     \<lparr>name = ''ClientModule.java'',
      path = ''src/main/java/booking/ClientModule.java'',
      content = ''@Provides public XBTBookingMgmtServiceClient getClient() {...}'',
      language = ''java'',
      size_bytes = 62\<rparr>"

definition scenarioDependency :: Dependency where
  "scenarioDependency =
     \<lparr>serviceName = ''XBTBookingMgmtService'', source = client_class, confidence = high,
      evidence = ''Found in ClientModule.java: @Provides XBTBookingMgmtServiceClient''\<rparr>"

definition candidate :: "string \<Rightarrow> source \<Rightarrow> confidence \<Rightarrow> string \<Rightarrow> Dependency" where
  "candidate n s c e = \<lparr>serviceName = n, source = s, confidence = c, evidence = e\<rparr>"

definition scenarioB :: "Dependency list" where
  \<comment> \<open>two imports of \<open>XbtIORServiceClient\<close>, a provider method for it, and another import\<close>
  "scenarioB =
     [candidate ''XbtIORService'' import_stmt medium ''Found in A.java: import XbtIORServiceClient'',
      candidate ''XbtIORService'' import_stmt medium ''Found in B.java: import XbtIORServiceClient'',
      candidate ''XbtIORService'' client_class high ''Found in M.java: @Provides XbtIORServiceClient'',
      candidate ''Payments'' import_stmt medium ''Found in A.java: import PaymentsClient'']"

definition httpFile :: CodeFile where
  "httpFile =
     \<lparr>name = ''Orders.java'',
      path = ''OrderGateway/src/Orders.java'',
      content = ''import com.acme.HttpClient; import com.acme.OrderServiceClient;'',
      language = ''java'',
      size_bytes = 63\<rparr>"

definition ioFile :: CodeFile where
  "ioFile =
     \<lparr>name = ''Orders.java'',
      path = ''OrderGateway/src/Orders.java'',
      content = ''import com.acme.IoClient; import com.acme.OrderServiceClient;'',
      language = ''java'',
      size_bytes = 61\<rparr>"

definition plainFile :: CodeFile where
  "plainFile =
     \<lparr>name = ''Main.java'', path = ''OrderGateway/src/Main.java'',
      content = ''class Main {}'', language = ''java'', size_bytes = 13\<rparr>"

definition longFile :: "string \<Rightarrow> CodeFile" where
  "longFile tail =
     \<lparr>name = ''Wiring.java'', path = ''OrderGateway/src/Wiring.java'',
      content = replicate 3000 CHR '' '' @ tail, language = ''java'', size_bytes = 3009\<rparr>"

definition caseFile :: CodeFile where
  "caseFile =
     \<lparr>name = ''Wiring.java'', path = ''OrderGateway/src/Wiring.java'',
      content = ''import com.acme.AaServiceClient; import com.acme.AZServiceClient;'',
      language = ''java'', size_bytes = 65\<rparr>"


definition tsFile :: CodeFile where
  "tsFile =
     \<lparr>name = ''ledger.ts'', path = ''OrderGateway/web/ledger.ts'',
      content = ''import com.acme.LedgerServiceClient;'',
      language = ''typescript'', size_bytes = 36\<rparr>"

definition notesFile :: CodeFile where
  "notesFile =
     \<lparr>name = ''notes.ts'', path = ''billing/web/notes.ts'',
      content = ''from billing.api import BillingClient;'',
      language = ''typescript'', size_bytes = 38\<rparr>"

definition pyFile :: CodeFile where
  "pyFile =
     \<lparr>name = ''main.py'', path = ''billing/main.py'',
      content = ''import os'', language = ''python'', size_bytes = 9\<rparr>"

definition scenarioSnippet :: string where
  "scenarioSnippet = ''@Provides public XBTBookingMgmtServiceClient getClient() {...}''"

definition provided :: "CodeFile \<Rightarrow> Dependency" where
  \<comment> \<open>the candidate that the provider rule pushes for the scenario text found in a file\<close>
  "provided f =
     \<lparr>serviceName = ''XBTBookingMgmtService'', source = client_class, confidence = high,
      evidence = ''Found in '' @ name f @ '': @Provides XBTBookingMgmtServiceClient''\<rparr>"

definition farFile :: CodeFile where
  "farFile =
     \<lparr>name = ''Wiring.java'', path = ''OrderGateway/src/Wiring.java'',
      content = replicate 100000 CHR '' '' @ scenarioSnippet @ [],
      language = ''java'', size_bytes = 100062\<rparr>"

definition nestedFile :: CodeFile where
  "nestedFile =
     \<lparr>name = ''ClientModule.java'',
      path = ''src/main/java/booking/ClientModule.java'',
      content = ''class ClientModule { @Provides @Singleton '' @ scenarioSnippet @ '' }'',
      language = ''java'',
      size_bytes = 106\<rparr>"

section \<open>Specification predicates\<close>

fun itemChars :: "rx \<Rightarrow> char \<Rightarrow> bool" where
  \<comment> \<open>the characters that an item of a pattern can consume\<close>
  "itemChars (Lit l) c = (c \<in> set l)"
| "itemChars (Rep cls lo hi g) c = in_class cls c"
| "itemChars (Alt ls) c = (\<exists>l \<in> set ls. c \<in> set l)"
| "itemChars GroupOpen c = False"
| "itemChars GroupClose c = False"

definition providesTail :: "rx list" where
  \<comment> \<open>the items of \<open>providesPattern\<close> after the lazy quantifier\<close>
  "providesTail =
     [Lit ''public'', Rep Space 1 None True,
      GroupOpen, Rep Word 1 None True, Alt [''Client'', ''Service'', ''Lambda'', ''Authority''],
      GroupClose, Rep Space 1 None True, Rep Word 1 None True]"

definition snippetRest :: string where
  \<comment> \<open>the scenario text after its first character\<close>
  "snippetRest = ''Provides public XBTBookingMgmtServiceClient getClient() {...}''"

definition tagCount :: "string \<Rightarrow> CodeFile list \<Rightarrow> nat" where
  \<comment> \<open>the number of files with a language tag\<close>
  "tagCount l files = length (filter (\<lambda>f. language f = l) files)"

definition mostFrequent :: "string \<Rightarrow> CodeFile list \<Rightarrow> bool" where
  \<comment> \<open>\<open>l\<close> is the tag of some file, and every other tag has strictly fewer files\<close>
  "mostFrequent l files \<longleftrightarrow>
     0 < tagCount l files
     \<and> (\<forall>f \<in> set files. language f \<noteq> l \<longrightarrow> tagCount (language f) files < tagCount l files)"

definition objectPrototypeNames :: "string list" where
  \<comment> \<open>the property names that every object inherits from \<open>Object.prototype\<close>\<close>
  "objectPrototypeNames = [''constructor'', ''__defineGetter__'', ''__defineSetter__'',
     ''hasOwnProperty'', ''__lookupGetter__'', ''__lookupSetter__'', ''isPrototypeOf'',
     ''propertyIsEnumerable'', ''toString'', ''valueOf'', ''__proto__'', ''toLocaleString'']"

definition plainTags :: "CodeFile list \<Rightarrow> bool" where
  \<comment> \<open>no language tag is an inherited property name, so that \<open>langCounts[tag] || 0\<close> is
      the number counted so far\<close>
  "plainTags files \<longleftrightarrow> list_all (\<lambda>f. language f \<notin> set objectPrototypeNames) files"

definition countOf :: "int jsmap \<Rightarrow> string \<Rightarrow> int" where
  \<comment> \<open>\<open>langCounts[l] || 0\<close>\<close>
  "countOf m l = (case mapGet m l of None \<Rightarrow> 0 | Some n \<Rightarrow> n)"

definition consistentComparator :: "(string \<Rightarrow> string \<Rightarrow> int) \<Rightarrow> bool" where
  \<comment> \<open>a comparator that orders every two strings, transitively\<close>
  "consistentComparator lc \<longleftrightarrow>
     (\<forall>a b. lc a b \<le> 0 \<or> lc b a \<le> 0)
     \<and> (\<forall>a b c. lc a b \<le> 0 \<longrightarrow> lc b c \<le> 0 \<longrightarrow> lc a c \<le> 0)"

definition agreeOnPreview :: "CodeFile \<Rightarrow> CodeFile \<Rightarrow> bool" where
  \<comment> \<open>equal name, path and size, and contents that agree on the first 3000 characters\<close>
  "agreeOnPreview f g \<longleftrightarrow>
     name f = name g \<and> path f = path g \<and> size_bytes f = size_bytes g
     \<and> take 3000 (content f) = take 3000 (content g)"

definition rejectedName :: "string \<Rightarrow> bool" where
  \<comment> \<open>the rejection rule in the words of the specification: length at most 2 or at least
      100, no upper-case ASCII letter at the start, a name of the stoplist, or one of the
      four endings\<close>
  "rejectedName n \<longleftrightarrow>
     length n \<le> 2 \<or> length n \<ge> 100
     \<or> \<not> (n \<noteq> [] \<and> isUpper (hd n))
     \<or> n \<in> set [''String'', ''Integer'', ''Boolean'', ''Object'', ''List'', ''Map'', ''Set'',
          ''Array'', ''Http'', ''Rest'', ''Json'', ''Xml'', ''Builder'']
     \<or> suffix ''Builder'' n \<or> suffix ''Factory'' n \<or> suffix ''Utils'' n \<or> suffix ''Helper'' n"

definition dedupCorrect :: "Dependency list \<Rightarrow> Dependency list \<Rightarrow> bool" where
  \<comment> \<open>\<open>out\<close> resolves the candidates \<open>deps\<close>: names are unique, every kept record is a
      candidate whose confidence is the greatest among the candidates of its name, and
      every candidate's name is kept\<close>
  "dedupCorrect deps out \<longleftrightarrow>
     distinct (map serviceName out)
     \<and> (\<forall>d \<in> set out. d \<in> set deps
          \<and> (\<forall>c \<in> set deps. serviceName c = serviceName d
                \<longrightarrow> confidenceRank (confidence c) \<le> confidenceRank (confidence d)))
     \<and> (\<forall>c \<in> set deps. \<exists>d \<in> set out. serviceName d = serviceName c)"

definition keyed :: "Dependency jsmap \<Rightarrow> bool" where
  \<comment> \<open>the invariant of \<open>serviceMap\<close>: keys are unique and each record is stored under its
      own name\<close>
  "keyed m \<longleftrightarrow> distinct (map fst m) \<and> (\<forall>(k, v) \<in> set m. serviceName v = k)"

section \<open>Sorting and deduplication keep only what they are given\<close>

lemma set_insertBy: "set (insertBy cmp x ys) = insert x (set ys)"
  by (induction ys) auto

lemma set_jsSort: "set (jsSort cmp xs) = set xs"
  by (induction xs) (auto simp: jsSort_def set_insertBy)

lemma mapSet_values: "set (mapValues (mapSet k v m)) \<subseteq> insert v (set (mapValues m))"
  by (induction m) (force simp: mapValues_def split: if_splits)+

lemma dedupStep_values: "set (mapValues (dedupStep d m)) \<subseteq> insert d (set (mapValues m))"
  using mapSet_values[of "serviceName d" d m]
  by (auto simp: dedupStep_def split: option.splits)

lemma cliDedupStep_values: "set (mapValues (cliDedupStep d m)) \<subseteq> insert d (set (mapValues m))"
  using mapSet_values[of "serviceName d" d m]
  by (auto simp: cliDedupStep_def split: option.splits)

lemma fold_dedupStep_values:
  "set (mapValues (fold dedupStep deps m)) \<subseteq> set deps \<union> set (mapValues m)"
proof (induction deps arbitrary: m)
  case Nil
  show ?case by simp
next
  case (Cons d deps)
  from Cons.IH[of "dedupStep d m"] dedupStep_values[of d m] show ?case by auto
qed

lemma fold_cliDedupStep_values:
  "set (mapValues (fold cliDedupStep deps m)) \<subseteq> set deps \<union> set (mapValues m)"
proof (induction deps arbitrary: m)
  case Nil
  show ?case by simp
next
  case (Cons d deps)
  from Cons.IH[of "cliDedupStep d m"] cliDedupStep_values[of d m] show ?case by auto
qed

lemma deduplicateAndClean_subset: "set (deduplicateAndClean lc deps) \<subseteq> set deps"
  using fold_dedupStep_values[of deps "[]"]
  by (simp add: deduplicateAndClean_def set_jsSort mapValues_def)

lemma cliDeduplicate_subset: "set (cliDeduplicate lc deps) \<subseteq> set deps"
  using fold_cliDedupStep_values[of deps "[]"]
  by (simp add: cliDeduplicate_def set_jsSort mapValues_def)

lemma collect_confidence: "d \<in> set (collect re clean ok src conf ev t) \<Longrightarrow> confidence d = conf"
  by (auto simp: collect_def)

lemma collect_ok: "d \<in> set (collect re clean ok src conf ev t) \<Longrightarrow> ok (serviceName d)"
  by (auto simp: collect_def)

lemma java_confidence: "d \<in> set (extractJavaDependencies f) \<Longrightarrow> confidence d = high \<or> confidence d = medium"
  by (auto simp: extractJavaDependencies_def dest: collect_confidence)

lemma python_confidence: "d \<in> set (extractPythonDependencies f) \<Longrightarrow> confidence d = high"
  by (auto simp: extractPythonDependencies_def dest: collect_confidence)

lemma javascript_confidence: "d \<in> set (extractJavaScriptDependencies f) \<Longrightarrow> confidence d = high"
  by (auto simp: extractJavaScriptDependencies_def dest: collect_confidence)

lemma cli_confidence: "d \<in> set (cliExtractFile f) \<Longrightarrow> confidence d = high \<or> confidence d = medium"
  by (auto simp: cliExtractFile_def dest: collect_confidence split: if_splits)

lemma extractFile_confidence: "d \<in> set (extractFile lang f) \<Longrightarrow> confidence d = high \<or> confidence d = medium"
  by (auto simp: extractFile_def dest: java_confidence python_confidence javascript_confidence split: if_splits)

lemma extractDependencies_confidence:
  "d \<in> set (extractDependencies fs lang) \<Longrightarrow> confidence d = high \<or> confidence d = medium"
  by (auto simp: extractDependencies_def dest: extractFile_confidence)

lemma cliExtract_confidence:
  "d \<in> set (cliExtract fs) \<Longrightarrow> confidence d = high \<or> confidence d = medium"
  by (auto simp: cliExtract_def dest: cli_confidence)

section \<open>Evaluation of the scenario file\<close>

lemma scenario_provides:
  "execAll providesPattern (content scenarioFile) = [''XBTBookingMgmtServiceClient'']"
  by code_simp

lemma scenario_clientBuilder: "execAll clientBuilderPattern (content scenarioFile) = []"
  by code_simp

lemma scenario_javaImport: "execAll javaImportPattern (content scenarioFile) = []"
  by code_simp

lemma scenario_cliImport: "execAll cliImportPattern (content scenarioFile) = []"
  by code_simp

lemma scenario_name_valid: "isValidServiceName ''XBTBookingMgmtService''"
  by code_simp

lemma scenario_extractJava: "extractJavaDependencies scenarioFile = [scenarioDependency]"
proof -
  have "(stripSuffix ''ServiceClient'' \<circ> stripSuffix ''Client'') ''XBTBookingMgmtServiceClient''
        = ''XBTBookingMgmtService''"
    by code_simp
  moreover have "name scenarioFile = ''ClientModule.java''"
    by (simp add: scenarioFile_def)
  ultimately show ?thesis
    using scenario_name_valid
    by (simp add: extractJavaDependencies_def collect_def scenario_provides
        scenario_clientBuilder scenario_javaImport foundIn_def scenarioDependency_def)
qed

lemma scenario_score: "score scenarioFile = 60"
  by code_simp

lemma scenario_analysis:
  "dependencies (analyzeServiceDependencies lc [scenarioFile]) = [scenarioDependency]"
proof -
  have key: "selectKeyFiles [scenarioFile] lang = [scenarioFile]" for lang
    by (simp add: selectKeyFiles_def scored_def scenario_score jsSort_def)
  have lang: "language scenarioFile = ''java''"
    by (simp add: scenarioFile_def)
  have primary: "detectPrimaryLanguage [scenarioFile] = ''java''"
    by code_simp
  have "extractDependencies [scenarioFile] ''java'' = [scenarioDependency]"
    by (simp add: extractDependencies_def extractFile_def lang scenario_extractJava)
  then show ?thesis
    by (simp add: analyzeServiceDependencies_def Let_def key primary deduplicateAndClean_def
        dedupStep_def mapValues_def jsSort_def)
qed

lemma scenario_cli_analysis:
  "dependencies (cliAnalyzeServiceDependencies lc [scenarioFile]) = [scenarioDependency]"
proof -
  have lang: "language scenarioFile = ''java''"
    by (simp add: scenarioFile_def)
  have strip: "(stripSuffix ''ServiceClient'' \<circ> stripSuffix ''Client'') ''XBTBookingMgmtServiceClient''
        = ''XBTBookingMgmtService''"
    by code_simp
  have nm: "name scenarioFile = ''ClientModule.java''"
    by (simp add: scenarioFile_def)
  have len: "cliLengthOk ''XBTBookingMgmtService''"
    by code_simp
  have "cliExtract [scenarioFile] = [scenarioDependency]"
    using strip nm len
    by (simp add: cliExtract_def cliExtractFile_def lang collect_def scenario_provides
        scenario_clientBuilder scenario_cliImport foundIn_def scenarioDependency_def)
  then show ?thesis
    by (simp add: cliAnalyzeServiceDependencies_def cliDeduplicate_def cliDedupStep_def
        mapValues_def jsSort_def)
qed

section \<open>Confidence levels that the rules produce\<close>

text \<open>
  Claim C9. Every candidate that an extraction rule produces (the three Java rules, the
  Python rule, the TypeScript/JavaScript rule, and the rules of the command-line copy)
  has confidence \<open>high\<close> or \<open>medium\<close>; hence no dependency of a final analysis, of the
  library or of the command-line tool, has confidence \<open>low\<close>.
\<close>

theorem no_low_confidence:
  "(\<forall>d \<in> set (extractJavaDependencies f) \<union> set (extractPythonDependencies f)
        \<union> set (extractJavaScriptDependencies f) \<union> set (cliExtractFile f).
      confidence d = high \<or> confidence d = medium)
   \<and> (\<forall>d \<in> set (dependencies (analyzeServiceDependencies lc files)). confidence d \<noteq> low)
   \<and> (\<forall>d \<in> set (dependencies (cliAnalyzeServiceDependencies lc files)). confidence d \<noteq> low)"
proof (intro conjI ballI)
  fix d assume "d \<in> set (extractJavaDependencies f) \<union> set (extractPythonDependencies f)
        \<union> set (extractJavaScriptDependencies f) \<union> set (cliExtractFile f)"
  then show "confidence d = high \<or> confidence d = medium"
    using java_confidence python_confidence javascript_confidence cli_confidence by blast
next
  fix d assume "d \<in> set (dependencies (analyzeServiceDependencies lc files))"
  then have "d \<in> set (extractDependencies (selectKeyFiles files (detectPrimaryLanguage files)) (detectPrimaryLanguage files))"
    using deduplicateAndClean_subset by (auto simp: analyzeServiceDependencies_def Let_def)
  then show "confidence d \<noteq> low" using extractDependencies_confidence by fastforce
next
  fix d assume "d \<in> set (dependencies (cliAnalyzeServiceDependencies lc files))"
  then have "d \<in> set (cliExtract files)"
    using cliDeduplicate_subset by (auto simp: cliAnalyzeServiceDependencies_def)
  then show "confidence d \<noteq> low" using cliExtract_confidence by fastforce
qed


theorem no_low_confidence_witness:
  "scenarioDependency \<in> set (extractJavaDependencies scenarioFile)
   \<and> scenarioDependency \<in> set (dependencies (analyzeServiceDependencies codeUnitCompare [scenarioFile]))
   \<and> scenarioDependency \<in> set (dependencies (cliAnalyzeServiceDependencies codeUnitCompare [scenarioFile]))
   \<and> confidence scenarioDependency = high
   \<and> confidence scenarioDependency \<noteq> low"
  using no_low_confidence[of scenarioFile codeUnitCompare "[scenarioFile]"]
  by (simp add: scenario_extractJava scenario_analysis scenario_cli_analysis
      scenarioDependency_def)

section \<open>Deduplication\<close>

lemma mapGet_mapSet: "mapGet (mapSet k v m) k' = (if k' = k then Some v else mapGet m k')"
  by (induction k v m rule: mapSet.induct) auto

lemma mapGet_None_iff: "mapGet m k = None \<longleftrightarrow> k \<notin> fst ` set m"
  by (induction m k rule: mapGet.induct) auto

lemma mapGet_Some_mem: "mapGet m k = Some v \<Longrightarrow> (k, v) \<in> set m"
  by (induction m k rule: mapGet.induct) (auto split: if_splits)

lemma mem_mapGet: "distinct (map fst m) \<Longrightarrow> (k, v) \<in> set m \<Longrightarrow> mapGet m k = Some v"
  by (induction m k rule: mapGet.induct) (auto simp: rev_image_eqI)

lemma keys_mapSet: "fst ` set (mapSet k v m) = insert k (fst ` set m)"
  by (induction k v m rule: mapSet.induct) auto

lemma distinct_mapSet: "distinct (map fst m) \<Longrightarrow> distinct (map fst (mapSet k v m))"
  by (induction k v m rule: mapSet.induct) (auto simp: keys_mapSet)

lemma set_mapSet: "set (mapSet k v m) \<subseteq> insert (k, v) (set m)"
  by (induction k v m rule: mapSet.induct) auto

lemma keyed_mapSet: "keyed m \<Longrightarrow> serviceName v = k \<Longrightarrow> keyed (mapSet k v m)"
  unfolding keyed_def using distinct_mapSet[of m k v] set_mapSet[of k v m] by auto

lemma keyed_dedupStep: "keyed m \<Longrightarrow> keyed (dedupStep d m)"
  by (auto simp: dedupStep_def keyed_mapSet split: option.splits)

lemma keyed_fold: "keyed m \<Longrightarrow> keyed (fold dedupStep deps m)"
  by (induction deps arbitrary: m) (auto simp: keyed_dedupStep)

lemma dedupStep_mono:
  "mapGet m k = Some v0 \<Longrightarrow>
   \<exists>v1. mapGet (dedupStep d m) k = Some v1
        \<and> confidenceRank (confidence v0) \<le> confidenceRank (confidence v1)"
  by (auto simp: dedupStep_def mapGet_mapSet split: option.splits)

lemma dedupStep_covers:
  "\<exists>v1. mapGet (dedupStep d m) (serviceName d) = Some v1
        \<and> confidenceRank (confidence d) \<le> confidenceRank (confidence v1)"
  by (auto simp: dedupStep_def mapGet_mapSet split: option.splits)

lemma fold_mono:
  "mapGet m k = Some v0 \<Longrightarrow>
   \<exists>v1. mapGet (fold dedupStep deps m) k = Some v1
        \<and> confidenceRank (confidence v0) \<le> confidenceRank (confidence v1)"
proof (induction deps arbitrary: m v0)
  case Nil
  then show ?case by simp
next
  case (Cons d deps)
  from dedupStep_mono[OF Cons.prems, of d] obtain v1 where
    v1: "mapGet (dedupStep d m) k = Some v1"
      "confidenceRank (confidence v0) \<le> confidenceRank (confidence v1)" by blast
  from Cons.IH[OF v1(1)] v1(2) show ?case by fastforce
qed

lemma fold_covers:
  "c \<in> set deps \<Longrightarrow>
   \<exists>v. mapGet (fold dedupStep deps m) (serviceName c) = Some v
       \<and> confidenceRank (confidence c) \<le> confidenceRank (confidence v)"
proof (induction deps arbitrary: m)
  case Nil
  then show ?case by simp
next
  case (Cons d deps)
  show ?case
  proof (cases "c = d")
    case True
    from dedupStep_covers[of d m] obtain v1 where
      v1: "mapGet (dedupStep d m) (serviceName d) = Some v1"
        "confidenceRank (confidence d) \<le> confidenceRank (confidence v1)" by blast
    from fold_mono[OF v1(1), of deps] v1(2) True show ?thesis by fastforce
  next
    case False
    with Cons.prems have "c \<in> set deps" by simp
    from Cons.IH[OF this, of "dedupStep d m"] show ?thesis by simp
  qed
qed

lemma distinct_map_insertBy:
  "distinct (map f (insertBy cmp x ys)) \<longleftrightarrow> f x \<notin> f ` set ys \<and> distinct (map f ys)"
  by (induction ys) (auto simp: set_insertBy)

lemma distinct_map_jsSort: "distinct (map f (jsSort cmp xs)) \<longleftrightarrow> distinct (map f xs)"
  by (induction xs) (auto simp: jsSort_def distinct_map_insertBy set_jsSort[unfolded jsSort_def])

lemma keyed_names: "keyed m \<Longrightarrow> map serviceName (mapValues m) = map fst m"
  by (induction m) (auto simp: keyed_def mapValues_def)

lemma keyed_value_get: "keyed m \<Longrightarrow> d \<in> set (mapValues m) \<Longrightarrow> mapGet m (serviceName d) = Some d"
  by (auto simp: keyed_def mapValues_def intro!: mem_mapGet)

lemma dedup_library: "dedupCorrect deps (deduplicateAndClean lc deps)"
proof -
  let ?m = "fold dedupStep deps []"
  have k: "keyed ?m" by (rule keyed_fold) (simp add: keyed_def)
  have out: "set (deduplicateAndClean lc deps) = set (mapValues ?m)"
    by (simp add: deduplicateAndClean_def set_jsSort)
  have d1: "distinct (map serviceName (deduplicateAndClean lc deps))"
    using k by (simp add: deduplicateAndClean_def distinct_map_jsSort keyed_names keyed_def)
  have d2: "d \<in> set deps" if "d \<in> set (mapValues ?m)" for d
    using that fold_dedupStep_values[of deps "[]"] by (auto simp: mapValues_def)
  have d3: "confidenceRank (confidence c) \<le> confidenceRank (confidence d)"
    if "d \<in> set (mapValues ?m)" "c \<in> set deps" "serviceName c = serviceName d" for c d
  proof -
    from keyed_value_get[OF k that(1)] have "mapGet ?m (serviceName d) = Some d" .
    with fold_covers[OF that(2), of "[]"] that(3) show ?thesis by simp
  qed
  have d4: "\<exists>d \<in> set (mapValues ?m). serviceName d = serviceName c" if "c \<in> set deps" for c
  proof -
    from fold_covers[OF that, of "[]"] obtain v where
      v: "mapGet ?m (serviceName c) = Some v" by blast
    then have "(serviceName c, v) \<in> set ?m" by (rule mapGet_Some_mem)
    with k have "v \<in> set (mapValues ?m)" "serviceName v = serviceName c"
      by (auto simp: keyed_def mapValues_def rev_image_eqI)
    then show ?thesis by blast
  qed
  show ?thesis unfolding dedupCorrect_def out using d1 d2 d3 d4 by blast
qed

lemma cliDedupStep_eq:
  assumes "confidence d \<noteq> low" "\<forall>v \<in> set (mapValues m). confidence v \<noteq> low"
  shows "cliDedupStep d m = dedupStep d m"
proof (cases "mapGet m (serviceName d)")
  case None
  then show ?thesis by (simp add: cliDedupStep_def dedupStep_def)
next
  case (Some e)
  then have "e \<in> set (mapValues m)"
    by (auto dest!: mapGet_Some_mem simp: mapValues_def rev_image_eqI)
  with assms have "confidence e \<noteq> low" by blast
  with assms(1) Some show ?thesis
    by (cases "confidence d"; cases "confidence e")
       (simp_all add: cliDedupStep_def dedupStep_def)
qed

lemma cli_fold_eq:
  assumes "\<forall>d \<in> set deps. confidence d \<noteq> low" "\<forall>v \<in> set (mapValues m). confidence v \<noteq> low"
  shows "fold cliDedupStep deps m = fold dedupStep deps m"
  using assms
proof (induction deps arbitrary: m)
  case Nil
  show ?case by simp
next
  case (Cons d deps)
  have eq: "cliDedupStep d m = dedupStep d m"
    using Cons.prems by (intro cliDedupStep_eq) auto
  have "\<forall>v \<in> set (mapValues (dedupStep d m)). confidence v \<noteq> low"
    using dedupStep_values[of d m] Cons.prems by auto
  with Cons.IH[of "dedupStep d m"] Cons.prems eq show ?case by simp
qed

lemma cliDeduplicate_eq:
  "\<forall>d \<in> set deps. confidence d \<noteq> low \<Longrightarrow> cliDeduplicate lc deps = deduplicateAndClean lc deps"
  using cli_fold_eq[of deps "[]"]
  by (simp add: cliDeduplicate_def deduplicateAndClean_def mapValues_def)

text \<open>
  Claim C1. For every list of candidates, the output of \<open>deduplicateAndClean\<close> has no two
  dependencies of one name, and the record kept for a name is a candidate whose confidence
  is the greatest among the candidates of that name. The same holds of the command-line
  pipeline: for every list of files, its output resolves in this way the candidates that
  its extraction pushed. Its loop, which replaces a record only by one of confidence
  \<open>high\<close>, gives the result of \<open>deduplicateAndClean\<close> on every list without a candidate of
  confidence \<open>low\<close>, and its rules push no other.
\<close>

theorem dedup_correct:
  "dedupCorrect deps (deduplicateAndClean lc deps)
   \<and> ((\<forall>d \<in> set deps. confidence d \<noteq> low) \<longrightarrow> dedupCorrect deps (cliDeduplicate lc deps))
   \<and> dedupCorrect (cliExtract files) (dependencies (cliAnalyzeServiceDependencies lc files))"
proof (intro conjI impI)
  show "dedupCorrect deps (deduplicateAndClean lc deps)" by (rule dedup_library)
next
  assume "\<forall>d \<in> set deps. confidence d \<noteq> low"
  then show "dedupCorrect deps (cliDeduplicate lc deps)"
    by (simp add: cliDeduplicate_eq dedup_library)
next
  have "\<forall>d \<in> set (cliExtract files). confidence d \<noteq> low"
    using cliExtract_confidence by fastforce
  then show "dedupCorrect (cliExtract files) (dependencies (cliAnalyzeServiceDependencies lc files))"
    by (simp add: cliAnalyzeServiceDependencies_def cliDeduplicate_eq dedup_library)
qed

theorem dedup_correct_witness:
  "low \<notin> set (map confidence scenarioB)
   \<and> dedupCorrect scenarioB (deduplicateAndClean codeUnitCompare scenarioB)
   \<and> dedupCorrect scenarioB (cliDeduplicate codeUnitCompare scenarioB)
   \<and> map (\<lambda>d. (serviceName d, confidence d)) (deduplicateAndClean codeUnitCompare scenarioB)
       = [(''Payments'', medium), (''XbtIORService'', high)]
   \<and> dedupCorrect (cliExtract [scenarioFile])
        (dependencies (cliAnalyzeServiceDependencies codeUnitCompare [scenarioFile]))"
proof -
  have nolow: "\<forall>d \<in> set scenarioB. confidence d \<noteq> low"
    by (simp add: scenarioB_def candidate_def)
  have out: "map (\<lambda>d. (serviceName d, confidence d)) (deduplicateAndClean codeUnitCompare scenarioB)
       = [(''Payments'', medium), (''XbtIORService'', high)]"
    by (simp add: scenarioB_def candidate_def deduplicateAndClean_def dedupStep_def
        mapValues_def jsSort_def byName_def code_unit_def)
  have nolow': "low \<notin> set (map confidence scenarioB)"
    by (simp add: scenarioB_def candidate_def)
  from dedup_correct[of scenarioB codeUnitCompare "[scenarioFile]"] nolow nolow' out
  show ?thesis by simp
qed

section \<open>Name validation in the two pipelines\<close>

lemma startsUpper_hd: "startsUpper n \<longleftrightarrow> n \<noteq> [] \<and> isUpper (hd n)"
  by (cases n) (simp_all add: startsUpper_def)

lemma rejected_iff: "rejectedName n \<longleftrightarrow> \<not> isValidServiceName n"
proof -
  have "set [''String'', ''Integer'', ''Boolean'', ''Object'', ''List'', ''Map'', ''Set'',
          ''Array'', ''Http'', ''Rest'', ''Json'', ''Xml'', ''Builder''] = set basicTypes"
    by (simp only: basicTypes_def)
  then show ?thesis
    unfolding rejectedName_def isValidServiceName_def endsWith_def startsUpper_hd
    by (simp only: not_less not_le de_Morgan_conj de_Morgan_disj not_not)
qed

lemma java_valid: "d \<in> set (extractJavaDependencies f) \<Longrightarrow> isValidServiceName (serviceName d)"
  by (auto simp: extractJavaDependencies_def dest: collect_ok)

lemma python_valid: "d \<in> set (extractPythonDependencies f) \<Longrightarrow> isValidServiceName (serviceName d)"
  by (auto simp: extractPythonDependencies_def dest: collect_ok)

lemma javascript_valid:
  "d \<in> set (extractJavaScriptDependencies f) \<Longrightarrow> isValidServiceName (serviceName d)"
  by (auto simp: extractJavaScriptDependencies_def dest: collect_ok)

lemma extractDependencies_valid:
  "d \<in> set (extractDependencies fs lang) \<Longrightarrow> isValidServiceName (serviceName d)"
  by (auto simp: extractDependencies_def extractFile_def
      dest: java_valid python_valid javascript_valid split: if_splits)

lemma cliExtract_lengthOk: "d \<in> set (cliExtract fs) \<Longrightarrow> cliLengthOk (serviceName d)"
  by (auto simp: cliExtract_def cliExtractFile_def dest: collect_ok split: if_splits)

lemma analysis_valid:
  "d \<in> set (dependencies (analyzeServiceDependencies lc files)) \<Longrightarrow> isValidServiceName (serviceName d)"
  using deduplicateAndClean_subset extractDependencies_valid
  by (fastforce simp: analyzeServiceDependencies_def Let_def)

lemma cli_analysis_lengthOk:
  "d \<in> set (dependencies (cliAnalyzeServiceDependencies lc files)) \<Longrightarrow> cliLengthOk (serviceName d)"
  using cliDeduplicate_subset cliExtract_lengthOk
  by (fastforce simp: cliAnalyzeServiceDependencies_def)

lemma http_library:
  "map serviceName (dependencies (analyzeServiceDependencies codeUnitCompare [httpFile]))
   = [''OrderService'']"
  by code_simp

lemma http_cli:
  "map serviceName (dependencies (cliAnalyzeServiceDependencies codeUnitCompare [httpFile]))
   = [''Http'', ''OrderService'']"
  by code_simp

lemma io_cli:
  "map serviceName (dependencies (cliAnalyzeServiceDependencies codeUnitCompare [ioFile]))
   = [''OrderService'']"
  by code_simp

lemma rejected_Http: "rejectedName ''Http''"
  by (simp add: rejectedName_def)

text \<open>
  Claim C2, as amended. In the library pipeline, a name that the rejection rule rejects
  (a stoplisted name, a name ending in \<open>Builder\<close>, \<open>Factory\<close>, \<open>Utils\<close> or \<open>Helper\<close>, a name
  of length at most 2 or at least 100, a name that does not start with an upper-case ASCII
  letter) is the name of no dependency of the analysis. The command-line copy tests the
  length only: a name of length at most 2 or at least 100 is the name of no dependency of
  its analysis.
\<close>

theorem validator_soundness:
  "(rejectedName n \<longrightarrow>
      n \<notin> serviceName ` set (dependencies (analyzeServiceDependencies lc files)))
   \<and> (length n \<le> 2 \<or> length n \<ge> 100 \<longrightarrow>
      n \<notin> serviceName ` set (dependencies (cliAnalyzeServiceDependencies lc files)))"
proof (intro conjI impI)
  assume "rejectedName n"
  then have "\<not> isValidServiceName n" by (simp add: rejected_iff)
  then show "n \<notin> serviceName ` set (dependencies (analyzeServiceDependencies lc files))"
    using analysis_valid by blast
next
  assume "length n \<le> 2 \<or> length n \<ge> 100"
  then have "\<not> cliLengthOk n" by (auto simp: cliLengthOk_def)
  then show "n \<notin> serviceName ` set (dependencies (cliAnalyzeServiceDependencies lc files))"
    using cli_analysis_lengthOk by blast
qed

theorem validator_soundness_witness:
  "rejectedName ''Http''
   \<and> ''Http'' \<notin> serviceName ` set (dependencies (analyzeServiceDependencies codeUnitCompare [httpFile]))
   \<and> map serviceName (dependencies (analyzeServiceDependencies codeUnitCompare [httpFile]))
       = [''OrderService'']
   \<and> length ''Io'' \<le> 2
   \<and> ''Io'' \<notin> serviceName ` set (dependencies (cliAnalyzeServiceDependencies codeUnitCompare [ioFile]))
   \<and> map serviceName (dependencies (cliAnalyzeServiceDependencies codeUnitCompare [ioFile]))
       = [''OrderService'']"
  using validator_soundness[of "''Http''" codeUnitCompare "[httpFile]"]
    validator_soundness[of "''Io''" codeUnitCompare "[ioFile]"]
    rejected_Http http_library io_cli
  by simp

text \<open>
  The claim as stated fails for the command-line copy: from \<open>import com.acme.HttpClient;\<close>
  it emits the stoplisted name \<open>Http\<close>.
\<close>

theorem cli_emits_stoplisted_name:
  "rejectedName ''Http''
   \<and> ''Http'' \<in> serviceName ` set (dependencies (cliAnalyzeServiceDependencies codeUnitCompare [httpFile]))"
proof -
  have "set (map serviceName (dependencies (cliAnalyzeServiceDependencies codeUnitCompare [httpFile])))
        = {''Http'', ''OrderService''}"
    by (simp only: http_cli) simp
  then show ?thesis using rejected_Http by auto
qed


section \<open>Key-file selection\<close>

text \<open>
  The comparator \<open>(a, b) => b.score - a.score\<close> orders by the key \<open>- score\<close>, so the sort of
  \<open>selectKeyFiles\<close> is the stable sort by that key.
\<close>

lemma insertBy_key:
  assumes "\<And>a b. cmp a b \<le> 0 \<longleftrightarrow> key a \<le> key b"
  shows "insertBy cmp x ys = insort_key key x ys"
  by (induction ys) (simp_all add: assms)

lemma jsSort_key:
  assumes "\<And>a b. cmp a b \<le> 0 \<longleftrightarrow> key a \<le> key b"
  shows "jsSort cmp xs = sort_key key xs"
  by (induction xs) (simp_all add: jsSort_def sort_key_def insertBy_key[OF assms])

lemma jsSort_by_score: "jsSort (\<lambda>a b. snd b - snd a) xs = sort_key (\<lambda>p. - snd p) (xs :: ('a \<times> int) list)"
  by (rule jsSort_key) auto

lemma insort_key_map: "insort_key f (g x) (map g ys) = map g (insort_key (\<lambda>a. f (g a)) x ys)"
  by (induction ys) simp_all

lemma sort_key_map: "sort_key f (map g xs) = map g (sort_key (\<lambda>a. f (g a)) xs)"
  by (induction xs) (simp_all add: insort_key_map)

lemma scored_eq: "scored files = map (\<lambda>f. (f, score f)) (filter (\<lambda>f. 0 < score f) files)"
  by (simp add: scored_def filter_map comp_def)

lemma selectKeyFiles_eq:
  "selectKeyFiles files lang = take 15 (sort_key (\<lambda>f. - score f) (filter (\<lambda>f. 0 < score f) files))"
  by (simp add: selectKeyFiles_def jsSort_by_score scored_eq sort_key_map comp_def take_map)

lemma score_plain: "score plainFile = 0"
  by code_simp

lemma score_http: "score httpFile = 5"
  by code_simp

lemma score_io: "score ioFile = 5"
  by code_simp

lemma four_files_scores:
  "map score [plainFile, httpFile, scenarioFile, ioFile] = [0, 5, 60, 5]"
  by (simp add: score_plain score_http score_io scenario_score)

lemma four_files_selected:
  "selectKeyFiles [plainFile, httpFile, scenarioFile, ioFile] ''java''
   = [scenarioFile, httpFile, ioFile]"
  by (simp add: selectKeyFiles_def scored_def jsSort_def
      score_plain score_http score_io scenario_score)

lemma sixteen_files: "length (selectKeyFiles (replicate 16 scenarioFile) ''java'') = 15"
  by (simp add: selectKeyFiles_eq scenario_score)

text \<open>
  Claim C5. For every list of files, \<open>selectKeyFiles\<close> returns at most 15 files; every
  returned file is an input file whose score is strictly positive; the returned files are
  in descending order of score; and files of equal score keep their input order.
\<close>

theorem selectKeyFiles_contract:
  "length (selectKeyFiles files lang) \<le> 15
   \<and> (\<forall>f \<in> set (selectKeyFiles files lang). f \<in> set files \<and> 0 < score f)
   \<and> sorted_wrt (\<lambda>a b. score a \<ge> score b) (selectKeyFiles files lang)
   \<and> (\<forall>k. prefix (filter (\<lambda>f. score f = k) (selectKeyFiles files lang))
                  (filter (\<lambda>f. score f = k) files))"
proof (intro conjI ballI allI)
  let ?pos = "filter (\<lambda>f. 0 < score f) files"
  let ?S = "sort_key (\<lambda>f. - score f) ?pos"
  show "length (selectKeyFiles files lang) \<le> 15"
    by (simp add: selectKeyFiles_eq)
  show "f \<in> set files" if "f \<in> set (selectKeyFiles files lang)" for f
    using that by (auto simp: selectKeyFiles_eq dest: in_set_takeD)
  show "0 < score f" if "f \<in> set (selectKeyFiles files lang)" for f
    using that by (auto simp: selectKeyFiles_eq dest: in_set_takeD)
  have "sorted (map (\<lambda>f. - score f) ?S)" by (rule sorted_sort_key)
  then have "sorted_wrt (\<lambda>a b. score a \<ge> score b) ?S"
    by (simp add: sorted_map)
  then show "sorted_wrt (\<lambda>a b. score a \<ge> score b) (selectKeyFiles files lang)"
    by (simp add: selectKeyFiles_eq)
  show "prefix (filter (\<lambda>f. score f = k) (selectKeyFiles files lang))
          (filter (\<lambda>f. score f = k) files)" for k
  proof -
    have "filter (\<lambda>f. - score f = - k) ?S = filter (\<lambda>f. - score f = - k) ?pos"
      by (rule sort_key_stable)
    then have st: "filter (\<lambda>f. score f = k) ?S = filter (\<lambda>f. score f = k) ?pos"
      by simp
    have "prefix (filter (\<lambda>f. score f = k) (take 15 ?S)) (filter (\<lambda>f. score f = k) ?S)"
      by (rule filter_mono_prefix) (rule take_is_prefix)
    then have p: "prefix (filter (\<lambda>f. score f = k) (selectKeyFiles files lang))
        (filter (\<lambda>f. score f = k) ?pos)"
      by (simp add: selectKeyFiles_eq st)
    show ?thesis
    proof (cases "0 < k")
      case True
      then have "filter (\<lambda>f. score f = k) ?pos = filter (\<lambda>f. score f = k) files"
        by (auto intro: filter_cong)
      with p show ?thesis by simp
    next
      case False
      then have "filter (\<lambda>f. score f = k) ?pos = []"
        by (auto simp: filter_empty_conv)
      with p show ?thesis by simp
    qed
  qed
qed


theorem selectKeyFiles_contract_witness:
  "selectKeyFiles [plainFile, httpFile, scenarioFile, ioFile] ''java''
     = [scenarioFile, httpFile, ioFile]
   \<and> score plainFile = 0
   \<and> scenarioFile \<in> set (selectKeyFiles [plainFile, httpFile, scenarioFile, ioFile] ''java'')
   \<and> scenarioFile \<in> set [plainFile, httpFile, scenarioFile, ioFile]
   \<and> 0 < score scenarioFile
   \<and> sorted_wrt (\<lambda>a b. score a \<ge> score b) [scenarioFile, httpFile, ioFile]
   \<and> prefix (filter (\<lambda>f. score f = 5) [scenarioFile, httpFile, ioFile])
        (filter (\<lambda>f. score f = 5) [plainFile, httpFile, scenarioFile, ioFile])
   \<and> filter (\<lambda>f. score f = 5) [scenarioFile, httpFile, ioFile] = [httpFile, ioFile]
   \<and> length (selectKeyFiles (replicate 16 scenarioFile) ''java'') = 15"
  using selectKeyFiles_contract[of "[plainFile, httpFile, scenarioFile, ioFile]" "''java''"]
    four_files_scores sixteen_files
  by (simp add: four_files_selected)

section \<open>The content preview\<close>

lemma score_agree: "agreeOnPreview f g \<Longrightarrow> score f = score g"
  by (simp add: agreeOnPreview_def score_def substring0_def)

lemma list_all2_insort_key:
  assumes "\<And>a b. R a b \<Longrightarrow> f a = g b" "R x y" "list_all2 R xs ys"
  shows "list_all2 R (insort_key f x xs) (insort_key g y ys)"
  using assms(3,2)
  by (induction xs ys rule: list_all2_induct) (auto simp: assms(1))

lemma list_all2_sort_key:
  assumes "\<And>a b. R a b \<Longrightarrow> f a = g b" "list_all2 R xs ys"
  shows "list_all2 R (sort_key f xs) (sort_key g ys)"
  using assms(2)
  by (induction xs ys rule: list_all2_induct) (auto intro: list_all2_insort_key assms(1))

lemma list_all2_filter_agree:
  assumes "\<And>a b. R a b \<Longrightarrow> P a = Q b" "list_all2 R xs ys"
  shows "list_all2 R (filter P xs) (filter Q ys)"
  using assms(2)
  by (induction xs ys rule: list_all2_induct) (auto dest: assms(1))

text \<open>
  Claim C8. The score of a file depends on its content only through the first 3000
  characters: two files of equal name, path and size whose contents agree there have equal
  scores, and replacing the files of a list by such files changes neither the scores nor
  the positions that \<open>selectKeyFiles\<close> selects.
\<close>

theorem score_reads_preview_only:
  "(agreeOnPreview f g \<longrightarrow> score f = score g)
   \<and> (list_all2 agreeOnPreview fs gs \<longrightarrow>
        map score fs = map score gs
        \<and> list_all2 agreeOnPreview (selectKeyFiles fs lang) (selectKeyFiles gs lang'))"
proof (intro conjI impI)
  show "score f = score g" if "agreeOnPreview f g"
    using that by (rule score_agree)
next
  assume a: "list_all2 agreeOnPreview fs gs"
  then show "map score fs = map score gs"
    by (induction fs gs rule: list_all2_induct) (auto dest: score_agree)
  have "list_all2 agreeOnPreview (filter (\<lambda>f. 0 < score f) fs) (filter (\<lambda>f. 0 < score f) gs)"
    using a by (rule list_all2_filter_agree[rotated]) (simp add: score_agree)
  then have "list_all2 agreeOnPreview
      (sort_key (\<lambda>f. - score f) (filter (\<lambda>f. 0 < score f) fs))
      (sort_key (\<lambda>f. - score f) (filter (\<lambda>f. 0 < score f) gs))"
    by (rule list_all2_sort_key[rotated]) (simp add: score_agree)
  then show "list_all2 agreeOnPreview (selectKeyFiles fs lang) (selectKeyFiles gs lang')"
    by (simp add: selectKeyFiles_eq list_all2_takeI)
qed

theorem score_reads_preview_only_witness:
  "agreeOnPreview (longFile ''@Provides'') (longFile ''plain'')
   \<and> content (longFile ''@Provides'') \<noteq> content (longFile ''plain'')
   \<and> score (longFile ''@Provides'') = score (longFile ''plain'')
   \<and> list_all2 agreeOnPreview [longFile ''@Provides''] [longFile ''plain'']
   \<and> list_all2 agreeOnPreview (selectKeyFiles [longFile ''@Provides''] ''java'')
        (selectKeyFiles [longFile ''plain''] ''java'')"
proof -
  have a: "agreeOnPreview (longFile ''@Provides'') (longFile ''plain'')"
    by (simp add: agreeOnPreview_def longFile_def)
  have d: "content (longFile ''@Provides'') \<noteq> content (longFile ''plain'')"
    by (simp add: longFile_def)
  from a have l: "list_all2 agreeOnPreview [longFile ''@Provides''] [longFile ''plain'']"
    by simp
  from score_reads_preview_only[of "longFile ''@Provides''" "longFile ''plain''"
      "[longFile ''@Provides'']" "[longFile ''plain'']" "''java''" "''java''"] a d l
  show ?thesis by blast
qed


section \<open>The inferred service name\<close>

text \<open>
  Each of the words \<open>Service\<close>, \<open>Gateway\<close>, \<open>Lambda\<close>, \<open>Api\<close> and \<open>API\<close> contains an upper-case
  letter, so the two tests of a path segment accept the same segments.
\<close>

lemma includesStr_set: "includesStr s p \<Longrightarrow> set p \<subseteq> set s"
proof (induction s)
  case Nil
  then show ?case by simp
next
  case (Cons a s)
  from Cons.prems have "prefix p (a # s) \<or> includesStr s p" by simp
  then show ?case
  proof
    assume "prefix p (a # s)"
    then show ?thesis by (rule set_mono_prefix)
  next
    assume "includesStr s p"
    with Cons.IH show ?thesis by auto
  qed
qed

lemma includes_upper: "includesStr s p \<Longrightarrow> c \<in> set p \<Longrightarrow> isUpper c \<Longrightarrow> hasUpper s"
  using includesStr_set[of s p] by (auto simp: hasUpper_def list_ex_iff)

lemma looksLikeService_eq: "looksLikeService part = cliLooksLikeService part"
proof -
  have "isUpper CHR ''L''" "isUpper CHR ''A''"
    by (simp_all add: isUpper_def code_unit_def)
  then have "hasUpper part"
    if "includesStr part ''Lambda'' \<or> includesStr part ''Api'' \<or> includesStr part ''API''"
    using that by (auto elim!: includes_upper)
  then show ?thesis
    by (auto simp: looksLikeService_def cliLooksLikeService_def)
qed

lemma inferServiceName_eq: "inferServiceName files = cliInferServiceName files"
proof -
  have "looksLikeService = cliLooksLikeService"
    by (rule ext) (rule looksLikeService_eq)
  then show ?thesis by (simp add: inferServiceName_def cliInferServiceName_def)
qed

text \<open>
  Claim C4, as amended. For every list of files, the command-line copy and the library
  module infer the same service name. The sequences of dependencies need not be equal:
  the command-line copy has no selection of key files, tests the length of a name only,
  has no \<open>Resource\<close> import rule and applies the Java rules alone, to files tagged \<open>java\<close>.
\<close>

theorem pipelines_same_service_name:
  "ownServiceName (cliAnalyzeServiceDependencies lc files)
   = ownServiceName (analyzeServiceDependencies lc files)"
  by (simp add: cliAnalyzeServiceDependencies_def analyzeServiceDependencies_def Let_def
      inferServiceName_eq)

text \<open>
  The claim as stated fails: for a file with the imports \<open>HttpClient\<close> and
  \<open>OrderServiceClient\<close> the command-line copy returns \<open>Http\<close> and \<open>OrderService\<close>, the
  library module \<open>OrderService\<close> only.
\<close>

theorem pipelines_differ:
  "cliAnalyzeServiceDependencies codeUnitCompare [httpFile]
   \<noteq> analyzeServiceDependencies codeUnitCompare [httpFile]"
proof
  assume "cliAnalyzeServiceDependencies codeUnitCompare [httpFile]
    = analyzeServiceDependencies codeUnitCompare [httpFile]"
  then have "map serviceName (dependencies (cliAnalyzeServiceDependencies codeUnitCompare [httpFile]))
    = map serviceName (dependencies (analyzeServiceDependencies codeUnitCompare [httpFile]))"
    by simp
  then show False by (simp only: http_cli http_library) simp
qed

section \<open>The order of the output\<close>

lemma sorted_insertBy:
  assumes tot: "\<And>a b. cmp a b \<le> 0 \<or> cmp b a \<le> 0"
    and tr: "\<And>a b c. cmp a b \<le> 0 \<Longrightarrow> cmp b c \<le> 0 \<Longrightarrow> cmp a c \<le> 0"
  shows "sorted_wrt (\<lambda>a b. cmp a b \<le> 0) ys \<Longrightarrow> sorted_wrt (\<lambda>a b. cmp a b \<le> 0) (insertBy cmp x ys)"
proof (induction ys)
  case Nil
  show ?case by simp
next
  case (Cons y ys)
  show ?case
  proof (cases "cmp x y \<le> 0")
    case True
    with Cons.prems tr show ?thesis by auto
  next
    case False
    with tot[of x y] have "cmp y x \<le> 0" by simp
    with False Cons show ?thesis by (auto simp: set_insertBy)
  qed
qed

lemma sorted_jsSort:
  assumes "\<And>a b. cmp a b \<le> 0 \<or> cmp b a \<le> 0"
    and "\<And>a b c. cmp a b \<le> 0 \<Longrightarrow> cmp b c \<le> 0 \<Longrightarrow> cmp a c \<le> 0"
  shows "sorted_wrt (\<lambda>a b. cmp a b \<le> 0) (jsSort cmp xs)"
  by (induction xs) (simp_all add: jsSort_def sorted_insertBy[OF assms])

lemma codeUnitCompare_Cons_le:
  "codeUnitCompare (x # xs) (y # ys) \<le> 0 \<longleftrightarrow>
     code_unit x < code_unit y \<or> (code_unit x = code_unit y \<and> codeUnitCompare xs ys \<le> 0)"
  by (cases "code_unit x < code_unit y"; cases "code_unit y < code_unit x") simp_all

lemma codeUnitCompare_total: "codeUnitCompare a b \<le> 0 \<or> codeUnitCompare b a \<le> 0"
proof (induction a arbitrary: b)
  case Nil
  show ?case by (cases b) simp_all
next
  case (Cons x xs)
  show ?case
  proof (cases b)
    case Nil
    then show ?thesis by simp
  next
    case (Cons y ys)
    from Cons.IH[of ys] show ?thesis
      unfolding Cons codeUnitCompare_Cons_le by (metis nat_neq_iff)
  qed
qed

lemma codeUnitCompare_trans:
  "codeUnitCompare a b \<le> 0 \<Longrightarrow> codeUnitCompare b c \<le> 0 \<Longrightarrow> codeUnitCompare a c \<le> 0"
proof (induction a arbitrary: b c)
  case Nil
  show ?case by (cases c) simp_all
next
  case (Cons x xs)
  from Cons.prems(1) obtain y ys where b: "b = y # ys"
    by (cases b) simp_all
  from Cons.prems(2) b obtain z zs where c: "c = z # zs"
    by (cases c) simp_all
  from Cons.prems Cons.IH[of ys zs] show ?case
    unfolding b c codeUnitCompare_Cons_le by (metis less_trans)
qed

lemma case_letter:
  "map serviceName (dependencies (analyzeServiceDependencies letterCompare [caseFile]))
   = [''AaService'', ''AZService'']"
  by code_simp

lemma case_codeUnit:
  "map serviceName (dependencies (analyzeServiceDependencies codeUnitCompare [caseFile]))
   = [''AZService'', ''AaService'']"
  by code_simp

text \<open>
  Claim C3, as amended. The final sequence of dependencies is sorted by \<open>serviceName\<close>
  with the comparator \<open>localeCompare\<close> of the host: for every comparator that is total and
  transitive, each dependency compares less than or equal to every later one, in the
  library module and in the command-line copy. The order is the order of the code points
  when the host compares by code point; for a fixed comparator the output is a function of
  the input.
\<close>

theorem sorted_by_host_comparator:
  assumes "consistentComparator lc"
  shows "sorted_wrt (\<lambda>a b. lc (serviceName a) (serviceName b) \<le> 0)
           (dependencies (analyzeServiceDependencies lc files))
       \<and> sorted_wrt (\<lambda>a b. lc (serviceName a) (serviceName b) \<le> 0)
           (dependencies (cliAnalyzeServiceDependencies lc files))"
proof -
  have tot: "byName lc a b \<le> 0 \<or> byName lc b a \<le> 0" for a b
    using assms by (simp add: byName_def consistentComparator_def)
  have tr: "byName lc a b \<le> 0 \<Longrightarrow> byName lc b c \<le> 0 \<Longrightarrow> byName lc a c \<le> 0" for a b c
    using assms unfolding byName_def consistentComparator_def by blast
  have "sorted_wrt (\<lambda>a b. byName lc a b \<le> 0) (jsSort (byName lc) xs)" for xs
    by (rule sorted_jsSort) (use tot tr in blast)+
  then show ?thesis
    by (simp add: analyzeServiceDependencies_def cliAnalyzeServiceDependencies_def Let_def
        deduplicateAndClean_def cliDeduplicate_def byName_def)
qed

theorem sorted_by_host_comparator_witness:
  "consistentComparator codeUnitCompare
   \<and> sorted_wrt (\<lambda>a b. codeUnitCompare (serviceName a) (serviceName b) \<le> 0)
        (dependencies (cliAnalyzeServiceDependencies codeUnitCompare [httpFile]))
   \<and> sorted_wrt (\<lambda>a b. codeUnitCompare (serviceName a) (serviceName b) \<le> 0)
        (dependencies (analyzeServiceDependencies codeUnitCompare [caseFile]))
   \<and> map serviceName (dependencies (cliAnalyzeServiceDependencies codeUnitCompare [httpFile]))
        = [''Http'', ''OrderService'']
   \<and> map serviceName (dependencies (analyzeServiceDependencies codeUnitCompare [caseFile]))
        = [''AZService'', ''AaService'']"
proof -
  have c: "consistentComparator codeUnitCompare"
    unfolding consistentComparator_def
    using codeUnitCompare_total codeUnitCompare_trans by blast
  from sorted_by_host_comparator[OF c, of "[httpFile]"]
    sorted_by_host_comparator[OF c, of "[caseFile]"] c http_cli case_codeUnit
  show ?thesis by blast
qed

text \<open>
  The claim as stated fails: with a comparator that orders letters without regard to
  case first, as locale collations do, \<open>AaService\<close> comes before \<open>AZService\<close>, which is not
  the order of the code points, and the order differs from that under the comparison of
  code points.
\<close>

theorem order_depends_on_comparator:
  "\<not> sorted_wrt (\<lambda>a b. codeUnitCompare a b \<le> 0)
       (map serviceName (dependencies (analyzeServiceDependencies letterCompare [caseFile])))
   \<and> map serviceName (dependencies (analyzeServiceDependencies letterCompare [caseFile]))
     \<noteq> map serviceName (dependencies (analyzeServiceDependencies codeUnitCompare [caseFile]))"
proof -
  have "codeUnitCompare ''AaService'' ''AZService'' = 1"
    by (simp add: code_unit_def)
  then show ?thesis by (simp only: case_letter case_codeUnit) simp
qed


section \<open>Scenario A\<close>

lemma score_provides_preview:
  assumes "includesStr (toLowerCase (substring0 (content f) 3000)) ''@provides''"
  shows "0 < score f"
proof -
  have nn: "0 \<le> (if b then c else 0)" if "0 \<le> c" for b and c :: int
    using that by simp
  have "25 \<le> score f"
    unfolding score_def Let_def using assms
    by (simp add: add_nonneg_nonneg add_increasing add_increasing2)
  then show ?thesis by simp
qed

lemma detectPrimaryLanguage_single:
  "detectPrimaryLanguage [f] = (if language f = [] then ''unknown'' else language f)"
  by (simp add: detectPrimaryLanguage_def countStep_def jsSort_def)

text \<open>
  What a match consumes: each character that \<open>matchHere\<close> passes over is one that some item
  of the pattern can consume, and a lazy quantifier over any character stops at the first
  place where the rest of the pattern matches.
\<close>

lemma rep_consumes:
  assumes "\<And>s. k s = Some (cap, rest) \<Longrightarrow> \<exists>c. s = c @ rest \<and> (\<forall>x \<in> set c. Q x)"
  shows "rep cls lo hi g k s = Some (cap, rest) \<Longrightarrow>
         \<exists>c. s = c @ rest \<and> (\<forall>x \<in> set c. Q x \<or> in_class cls x)"
proof (induction s arbitrary: lo hi)
  case Nil
  then have "k [] = Some (cap, rest)" by (simp split: if_splits)
  from assms[OF this] show ?case by auto
next
  case (Cons x xs)
  have step: "\<exists>c. x # xs = c @ rest \<and> (\<forall>y \<in> set c. Q y \<or> in_class cls y)"
    if "in_class cls x" "rep cls lo' hi' g k xs = Some (cap, rest)" for lo' hi'
  proof -
    from Cons.IH[OF that(2)] obtain c where "xs = c @ rest" "\<forall>y \<in> set c. Q y \<or> in_class cls y"
      by blast
    with that(1) have "x # xs = (x # c) @ rest \<and> (\<forall>y \<in> set (x # c). Q y \<or> in_class cls y)"
      by simp
    then show ?thesis by blast
  qed
  have stop: "\<exists>c. x # xs = c @ rest \<and> (\<forall>y \<in> set c. Q y \<or> in_class cls y)"
    if "k (x # xs) = Some (cap, rest)"
    using assms[OF that] by blast
  from Cons.prems show ?case
    by (auto split: if_splits option.splits intro: step stop)
qed

lemma alts_consumes:
  assumes "\<And>s. k s = Some (cap, rest) \<Longrightarrow> \<exists>c. s = c @ rest \<and> (\<forall>x \<in> set c. Q x)"
  shows "alts ls k s = Some (cap, rest) \<Longrightarrow>
         \<exists>c. s = c @ rest \<and> (\<forall>x \<in> set c. Q x \<or> (\<exists>l \<in> set ls. x \<in> set l))"
proof (induction ls)
  case Nil
  then show ?case by simp
next
  case (Cons l ls)
  show ?case
  proof (cases "prefix l s \<and> k (drop (length l) s) = Some (cap, rest)")
    case True
    then obtain c where c: "drop (length l) s = c @ rest" "\<forall>x \<in> set c. Q x"
      using assms by blast
    from True have "s = l @ drop (length l) s"
      by (metis append_eq_conv_conj prefixE)
    with c have "s = (l @ c) @ rest" by simp
    moreover have "\<forall>x \<in> set (l @ c). Q x \<or> (\<exists>l' \<in> set (l # ls). x \<in> set l')"
      using c(2) by auto
    ultimately show ?thesis by blast
  next
    case False
    with Cons.prems have "alts ls k s = Some (cap, rest)"
      by (auto split: if_splits option.splits)
    from Cons.IH[OF this] show ?thesis by auto
  qed
qed

lemma matchHere_consumes:
  "matchHere p st s = Some (cap, rest) \<Longrightarrow>
   \<exists>c. s = c @ rest \<and> (\<forall>x \<in> set c. \<exists>i \<in> set p. itemChars i x)"
proof (induction p arbitrary: st s)
  case Nil
  then show ?case by simp
next
  case (Cons i p)
  let ?Q = "\<lambda>x. \<exists>i \<in> set p. itemChars i x"
  have k: "\<And>st s. matchHere p st s = Some (cap, rest) \<Longrightarrow> \<exists>c. s = c @ rest \<and> (\<forall>x \<in> set c. ?Q x)"
    using Cons.IH by blast
  show ?case
  proof (cases i)
    case (Lit l)
    with Cons.prems have pre: "prefix l s" and m: "matchHere p st (drop (length l) s) = Some (cap, rest)"
      by (auto split: if_splits)
    from k[OF m] obtain c where c: "drop (length l) s = c @ rest" "\<forall>x \<in> set c. ?Q x" by blast
    from pre have "s = l @ drop (length l) s"
      by (metis append_eq_conv_conj prefixE)
    with c have "s = (l @ c) @ rest" by simp
    moreover have "\<forall>x \<in> set (l @ c). \<exists>j \<in> set (i # p). itemChars j x"
      using c(2) Lit by auto
    ultimately show ?thesis by blast
  next
    case (Rep cls lo hi g)
    with Cons.prems have r: "rep cls lo hi g (matchHere p st) s = Some (cap, rest)" by simp
    have kk: "\<And>s. matchHere p st s = Some (cap, rest) \<Longrightarrow> \<exists>c. s = c @ rest \<and> (\<forall>x \<in> set c. ?Q x)"
      using k by blast
    from rep_consumes[where k="matchHere p st" and Q="?Q", OF kk r]
    obtain c where "s = c @ rest" "\<forall>x \<in> set c. ?Q x \<or> in_class cls x" by blast
    then show ?thesis using Rep by fastforce
  next
    case (Alt ls)
    with Cons.prems have r: "alts ls (matchHere p st) s = Some (cap, rest)" by simp
    have kk: "\<And>s. matchHere p st s = Some (cap, rest) \<Longrightarrow> \<exists>c. s = c @ rest \<and> (\<forall>x \<in> set c. ?Q x)"
      using k by blast
    from alts_consumes[where k="matchHere p st" and Q="?Q", OF kk r]
    obtain c where "s = c @ rest" "\<forall>x \<in> set c. ?Q x \<or> (\<exists>l \<in> set ls. x \<in> set l)" by blast
    then show ?thesis using Alt by fastforce
  next
    case GroupOpen
    with Cons.prems have "matchHere p (s, snd st) s = Some (cap, rest)" by simp
    from k[OF this] show ?thesis by fastforce
  next
    case GroupClose
    with Cons.prems have "matchHere p (fst st, take (length (fst st) - length s) (fst st)) s
      = Some (cap, rest)" by simp
    from k[OF this] show ?thesis by fastforce
  qed
qed

lemma lazy_any_first:
  "rep AnyChar 0 (Some n) False k s = Some r \<Longrightarrow>
   \<exists>j \<le> n. j \<le> length s \<and> k (drop j s) = Some r \<and> (\<forall>i < j. k (drop i s) = None)"
proof (induction s arbitrary: n)
  case Nil
  then show ?case by (auto split: if_splits)
next
  case (Cons x xs)
  show ?case
  proof (cases "k (x # xs)")
    case (Some r')
    with Cons.prems have "r' = r" by simp
    with Some show ?thesis by (intro exI[of _ 0]) simp
  next
    case None
    with Cons.prems have n: "n \<noteq> 0" and r: "rep AnyChar 0 (Some (n - 1)) False k xs = Some r"
      by (auto split: if_splits)
    from Cons.IH[OF r] obtain j where j: "j \<le> n - 1" "j \<le> length xs" "k (drop j xs) = Some r"
      "\<forall>i < j. k (drop i xs) = None" by blast
    have "\<forall>i < Suc j. k (drop i (x # xs)) = None"
    proof (intro allI impI)
      fix i assume "i < Suc j"
      then show "k (drop i (x # xs)) = None"
        using None j(4) by (cases i) auto
    qed
    with j n show ?thesis by (intro exI[of _ "Suc j"]) auto
  qed
qed


lemma providesPattern_parts:
  "fst providesPattern = CHR ''@''"
  "snd providesPattern = Lit ''Provides'' # Rep AnyChar 0 (Some 200) False # providesTail"
  by (simp_all add: providesPattern_def providesTail_def)

lemma matchHere_provides:
  "matchHere (snd providesPattern) st s =
     (if prefix ''Provides'' s
      then rep AnyChar 0 (Some 200) False (matchHere providesTail st) (drop 8 s) else None)"
proof -
  have "length ''Provides'' = 8" by simp
  then show ?thesis
    unfolding providesPattern_parts matchHere.simps rx.case by (simp only:)
qed

lemma tail_at_public:
  "matchHere providesTail st (''public XBTBookingMgmtServiceClient getClient() {...}'' @ post)
   = Some (''XBTBookingMgmtServiceClient'', ''() {...}'' @ post)"
  by (simp add: providesTail_def isWord_def isSpace_def code_unit_def)

lemma tail_starts_p:
  assumes "matchHere providesTail st s = Some r"
  shows "\<exists>s'. s = CHR ''p'' # s'"
proof -
  from assms have "prefix ''public'' s"
    by (auto simp: providesTail_def split: if_splits)
  then show ?thesis by (auto simp: prefix_def)
qed

lemma tail_no_at:
  assumes "matchHere providesTail st s = Some (cap, rest)"
  shows "\<exists>c. s = c @ rest \<and> CHR ''@'' \<notin> set c"
proof -
  from matchHere_consumes[OF assms] obtain c where
    c: "s = c @ rest" "\<forall>x \<in> set c. \<exists>i \<in> set providesTail. itemChars i x" by blast
  have "\<not> (\<exists>i \<in> set providesTail. itemChars i CHR ''@'')"
    by (simp add: providesTail_def isWord_def isSpace_def code_unit_def)
  with c(2) have "CHR ''@'' \<notin> set c" by blast
  with c(1) show ?thesis by blast
qed


lemma snippet_split:
  "scenarioSnippet = ''@Provides '' @ ''public XBTBookingMgmtServiceClient getClient() {...}''"
  by (simp add: scenarioSnippet_def)

lemma tail_inside_marker:
  assumes "d < 10"
  shows "matchHere providesTail st (drop d (scenarioSnippet @ post)) = None"
proof (rule ccontr)
  assume "matchHere providesTail st (drop d (scenarioSnippet @ post)) \<noteq> None"
  then obtain r where "matchHere providesTail st (drop d (scenarioSnippet @ post)) = Some r"
    by blast
  from tail_starts_p[OF this] obtain s' where s': "drop d (scenarioSnippet @ post) = CHR ''p'' # s'"
    by blast
  let ?m = "''@Provides ''"
  let ?r = "''public XBTBookingMgmtServiceClient getClient() {...}'' @ post"
  have dl: "d < length ?m" using assms by simp
  have "scenarioSnippet @ post = ?m @ ?r" by (simp add: scenarioSnippet_def)
  then have "drop d (scenarioSnippet @ post) = drop d (?m @ ?r)" by (simp only:)
  also have "\<dots> = drop d ?m @ ?r" using dl by (simp only: drop_append) simp
  finally have "drop d (scenarioSnippet @ post) = drop d ?m @ ?r" .
  moreover from dl have "drop d ?m = (?m ! d) # drop (Suc d) ?m"
    by (rule Cons_nth_drop_Suc[symmetric])
  ultimately have "CHR ''p'' = ?m ! d" using s' by (simp only: append_Cons list.inject)
  moreover have "?m ! d \<in> set ?m" using dl by (rule nth_mem)
  ultimately have "CHR ''p'' \<in> set ?m" by simp
  then show False by simp
qed

lemma tail_at_snippet_public:
  "matchHere providesTail st (drop 10 (scenarioSnippet @ post))
   = Some (''XBTBookingMgmtServiceClient'', ''() {...}'' @ post)"
proof -
  have "drop 10 (scenarioSnippet @ post)
        = ''public XBTBookingMgmtServiceClient getClient() {...}'' @ post"
    by (simp add: scenarioSnippet_def)
  then show ?thesis by (simp only: tail_at_public)
qed

lemma match_before_snippet:
  assumes "matchHere (snd providesPattern) st (xs @ scenarioSnippet @ post) = Some (cap, rest)"
  shows "cap = ''XBTBookingMgmtServiceClient''
       \<or> (\<exists>pre'. rest = pre' @ scenarioSnippet @ post \<and> length pre' \<le> length xs)"
proof -
  let ?s = "xs @ scenarioSnippet @ post"
  let ?K = "matchHere providesTail st"
  from assms have "rep AnyChar 0 (Some 200) False ?K (drop 8 ?s) = Some (cap, rest)"
    by (simp add: matchHere_provides split: if_splits)
  from lazy_any_first[OF this] obtain j where
    j: "?K (drop j (drop 8 ?s)) = Some (cap, rest)" "\<forall>i < j. ?K (drop i (drop 8 ?s)) = None"
    by blast
  let ?m = "j + 8"
  from j(1) have K: "?K (drop ?m ?s) = Some (cap, rest)" by (simp only: drop_drop)
  show ?thesis
  proof (cases "?m \<le> length xs")
    case True
    then have d: "drop ?m ?s = drop ?m xs @ scenarioSnippet @ post" by simp
    from tail_no_at[OF K] obtain c where c: "drop ?m ?s = c @ rest" "CHR ''@'' \<notin> set c"
      by blast
    obtain sn where sn: "scenarioSnippet = CHR ''@'' # sn"
      by (simp add: scenarioSnippet_def)
    from c(1) d have "c @ rest = drop ?m xs @ scenarioSnippet @ post" by simp
    then obtain u where
      "(c = drop ?m xs @ u \<and> u @ rest = scenarioSnippet @ post)
       \<or> (c @ u = drop ?m xs \<and> rest = u @ scenarioSnippet @ post)"
      unfolding append_eq_append_conv2 by blast
    then show ?thesis
    proof
      assume a: "c = drop ?m xs @ u \<and> u @ rest = scenarioSnippet @ post"
      have "u = []"
      proof (cases u)
        case Nil
        then show ?thesis .
      next
        case (Cons y ys)
        from a have "u @ rest = scenarioSnippet @ post" by blast
        then have "y # (ys @ rest) = CHR ''@'' # (sn @ post)"
          unfolding Cons sn by (simp only: append_Cons)
        then have "y = CHR ''@''" by (simp only: list.inject)
        with a Cons c(2) show ?thesis by simp
      qed
      with a have "rest = [] @ scenarioSnippet @ post" by simp
      then show ?thesis by (metis list.size(3) le0)
    next
      assume a: "c @ u = drop ?m xs \<and> rest = u @ scenarioSnippet @ post"
      then have "length u \<le> length (drop ?m xs)"
        by (metis length_append le_add2)
      then have "length u \<le> length xs" by simp
      with a show ?thesis by blast
    qed
  next
    case False
    define d where "d = ?m - length xs"
    with False have dpos: "0 < d" and m: "?m = length xs + d" by simp_all
    have dr: "drop ?m ?s = drop d (scenarioSnippet @ post)"
      unfolding m by simp
    consider "d < 10" | "d = 10" | "10 < d" by linarith
    then show ?thesis
    proof cases
      case 1
      from tail_inside_marker[OF 1, of st post] K dr show ?thesis by simp
    next
      case 2
      with K dr tail_at_snippet_public[of st post] show ?thesis by simp
    next
      case 3
      let ?i = "length xs + 2"
      from 3 m have "?i < j" by simp
      with j(2) have "?K (drop ?i (drop 8 ?s)) = None" by blast
      moreover have "drop ?i (drop 8 ?s) = drop 10 (scenarioSnippet @ post)"
        by (simp only: drop_drop) simp
      ultimately show ?thesis using tail_at_snippet_public[of st post] by simp
    qed
  qed
qed

lemma snippet_Cons: "scenarioSnippet = CHR ''@'' # snippetRest"
  by (simp add: scenarioSnippet_def snippetRest_def)

lemma match_at_snippet:
  "matchHere (snd providesPattern) st (snippetRest @ post)
   = Some (''XBTBookingMgmtServiceClient'', ''() {...}'' @ post)"
  by (simp add: snippetRest_def providesPattern_def isWord_def isSpace_def code_unit_def)

lemma exec_at_snippet:
  "exec providesPattern (scenarioSnippet @ post)
   = Some (''XBTBookingMgmtServiceClient'', ''() {...}'' @ post)"
  by (simp add: snippet_Cons providesPattern_parts(1) match_at_snippet)

lemma exec_before_snippet:
  "exec providesPattern (pre @ scenarioSnippet @ post) = Some (cap, rest) \<Longrightarrow>
   cap = ''XBTBookingMgmtServiceClient''
   \<or> (\<exists>pre'. rest = pre' @ scenarioSnippet @ post \<and> length pre' < length pre)"
proof (induction pre)
  case Nil
  then show ?case by (simp add: exec_at_snippet)
next
  case (Cons x xs)
  let ?here = "if x = fst providesPattern
    then matchHere (snd providesPattern) ([], []) (xs @ scenarioSnippet @ post) else None"
  from Cons.prems have e: "(case ?here of Some r \<Rightarrow> Some r
      | None \<Rightarrow> exec providesPattern (xs @ scenarioSnippet @ post)) = Some (cap, rest)"
    by (simp only: append_Cons exec.simps)
  show ?case
  proof (cases ?here)
    case None
    with e have "exec providesPattern (xs @ scenarioSnippet @ post) = Some (cap, rest)"
      by (simp only: option.case)
    from Cons.IH[OF this] show ?thesis by auto
  next
    case (Some r)
    with e have "r = (cap, rest)" by (simp only: option.case option.inject)
    with Some have
      "matchHere (snd providesPattern) ([], []) (xs @ scenarioSnippet @ post) = Some (cap, rest)"
      by (auto split: if_splits)
    from match_before_snippet[OF this] show ?thesis by auto
  qed
qed

lemma exec_finds_snippet: "exec providesPattern (pre @ scenarioSnippet @ post) \<noteq> None"
proof (induction pre)
  case Nil
  show ?case by (simp add: exec_at_snippet)
next
  case (Cons x xs)
  then show ?case by (simp only: append_Cons exec.simps) (auto split: option.splits)
qed

lemma execAll_finds_snippet:
  "''XBTBookingMgmtServiceClient'' \<in> set (execAll providesPattern (pre @ scenarioSnippet @ post))"
proof (induction "length pre" arbitrary: pre rule: less_induct)
  case less
  from exec_finds_snippet[of pre post] obtain cap rest where
    e: "exec providesPattern (pre @ scenarioSnippet @ post) = Some (cap, rest)" by auto
  then have all: "execAll providesPattern (pre @ scenarioSnippet @ post)
      = cap # execAll providesPattern rest"
    by (simp add: execAll.simps[of _ "pre @ scenarioSnippet @ post"])
  from exec_before_snippet[OF e] show ?case
  proof
    assume "cap = ''XBTBookingMgmtServiceClient''"
    with all show ?thesis by simp
  next
    assume "\<exists>pre'. rest = pre' @ scenarioSnippet @ post \<and> length pre' < length pre"
    then obtain pre' where "rest = pre' @ scenarioSnippet @ post" "length pre' < length pre"
      by blast
    with less[of pre'] all show ?thesis by simp
  qed
qed


lemma collect_mem:
  "cls \<in> set (execAll re t) \<Longrightarrow> ok (clean cls) \<Longrightarrow>
   \<lparr>serviceName = clean cls, source = src, confidence = conf, evidence = ev cls\<rparr>
     \<in> set (collect re clean ok src conf ev t)"
  by (force simp: collect_def)

lemma provided_extracted:
  assumes "content f = pre @ scenarioSnippet @ post"
  shows "provided f \<in> set (extractJavaDependencies f)"
proof -
  let ?clean = "stripSuffix ''ServiceClient'' \<circ> stripSuffix ''Client''"
  have strip: "?clean ''XBTBookingMgmtServiceClient'' = ''XBTBookingMgmtService''"
    by code_simp
  have m: "''XBTBookingMgmtServiceClient'' \<in> set (execAll providesPattern (content f))"
    unfolding assms by (rule execAll_finds_snippet)
  have ok: "isValidServiceName (?clean ''XBTBookingMgmtServiceClient'')"
    by (simp only: strip scenario_name_valid)
  from collect_mem[OF m, of isValidServiceName ?clean client_class high
      "foundIn f ''@Provides ''", OF ok]
  have "provided f \<in> set (collect providesPattern ?clean
       isValidServiceName client_class high (foundIn f ''@Provides '') (content f))"
    by (simp only: strip provided_def foundIn_def) simp
  then show ?thesis by (simp add: extractJavaDependencies_def)
qed

lemma java_high_source:
  "d \<in> set (extractJavaDependencies f) \<Longrightarrow> confidence d = high \<Longrightarrow> source d = client_class"
  by (auto simp: extractJavaDependencies_def collect_def)

lemma rank_high: "confidenceRank high \<le> confidenceRank c \<Longrightarrow> c = high"
  by (cases c) simp_all

lemma single_java_file:
  assumes "language f = ''java''" "0 < score f"
  shows "dependencies (analyzeServiceDependencies lc [f])
         = deduplicateAndClean lc (extractJavaDependencies f)"
proof -
  from assms(2) have key: "selectKeyFiles [f] lang = [f]" for lang
    by (simp add: selectKeyFiles_def scored_def jsSort_def)
  have primary: "detectPrimaryLanguage [f] = ''java''"
    by (simp add: detectPrimaryLanguage_single assms(1))
  have "extractDependencies [f] ''java'' = extractJavaDependencies f"
    by (simp add: extractDependencies_def extractFile_def assms(1))
  then show ?thesis
    by (simp add: analyzeServiceDependencies_def Let_def key primary)
qed

lemma selected_java_candidate:
  assumes "content f = pre @ scenarioSnippet @ post" "language f = ''java''"
    and "f \<in> set (selectKeyFiles files (detectPrimaryLanguage files))"
  shows "\<exists>d \<in> set (dependencies (analyzeServiceDependencies lc files)).
           serviceName d = ''XBTBookingMgmtService'' \<and> confidence d = high"
proof -
  let ?lang = "detectPrimaryLanguage files"
  let ?deps = "extractDependencies (selectKeyFiles files ?lang) ?lang"
  let ?out = "deduplicateAndClean lc ?deps"
  have out: "dependencies (analyzeServiceDependencies lc files) = ?out"
    by (simp add: analyzeServiceDependencies_def Let_def)
  from assms(1) have "provided f \<in> set (extractJavaDependencies f)"
    by (rule provided_extracted)
  then have "provided f \<in> set (extractFile ?lang f)"
    by (simp add: extractFile_def assms(2))
  with assms(3) have ex: "provided f \<in> set ?deps"
    by (auto simp: extractDependencies_def)
  have dc: "dedupCorrect ?deps ?out" by (rule dedup_library)
  from dc ex obtain d where d: "d \<in> set ?out" "serviceName d = serviceName (provided f)"
    unfolding dedupCorrect_def by blast
  from dc d(1) have
    "\<forall>c \<in> set ?deps. serviceName c = serviceName d
        \<longrightarrow> confidenceRank (confidence c) \<le> confidenceRank (confidence d)"
    unfolding dedupCorrect_def by blast
  with ex d(2) have "confidenceRank (confidence (provided f)) \<le> confidenceRank (confidence d)"
    by simp
  then have "confidence d = high" by (simp add: provided_def rank_high)
  with d show ?thesis unfolding out by (auto simp: provided_def)
qed

text \<open>
  Claim C6, as amended. For a file whose content contains
  \<open>@Provides public XBTBookingMgmtServiceClient getClient() {...}\<close>, whatever stands before
  and after it, the Java extraction produces a candidate with service name
  \<open>XBTBookingMgmtService\<close>, source \<open>client_class\<close> and confidence \<open>high\<close>. The candidate
  reaches the final analysis when the file is among the selected key files: for a file of
  language \<open>java\<close> that \<open>selectKeyFiles\<close> selects from the input, the analysis has a
  dependency of this name with confidence \<open>high\<close>; when the file is the whole input and its
  score is positive, that dependency has source \<open>client_class\<close>; when the content is that
  text alone, the candidate is the one dependency of the analysis.
\<close>

theorem scenario_A:
  assumes "content f = pre @ scenarioSnippet @ post"
  shows "provided f \<in> set (extractJavaDependencies f)
       \<and> (language f = ''java''
            \<and> f \<in> set (selectKeyFiles files (detectPrimaryLanguage files)) \<longrightarrow>
            (\<exists>d \<in> set (dependencies (analyzeServiceDependencies lc files)).
               serviceName d = ''XBTBookingMgmtService'' \<and> confidence d = high))
       \<and> (language f = ''java'' \<and> 0 < score f \<longrightarrow>
            (\<exists>d \<in> set (dependencies (analyzeServiceDependencies lc [f])).
               serviceName d = ''XBTBookingMgmtService'' \<and> source d = client_class
               \<and> confidence d = high))
       \<and> (language f = ''java'' \<and> pre = [] \<and> post = [] \<longrightarrow>
            extractJavaDependencies f = [provided f]
            \<and> dependencies (analyzeServiceDependencies lc [f]) = [provided f])"
proof (intro conjI impI)
  show ex: "provided f \<in> set (extractJavaDependencies f)"
    using assms by (rule provided_extracted)
  {
    assume "language f = ''java''
      \<and> f \<in> set (selectKeyFiles files (detectPrimaryLanguage files))"
    then show "\<exists>d \<in> set (dependencies (analyzeServiceDependencies lc files)).
        serviceName d = ''XBTBookingMgmtService'' \<and> confidence d = high"
      using selected_java_candidate[OF assms] by blast
  }
  {
    assume a: "language f = ''java'' \<and> 0 < score f"
    let ?deps = "extractJavaDependencies f"
    let ?out = "deduplicateAndClean lc ?deps"
    from a have out: "dependencies (analyzeServiceDependencies lc [f]) = ?out"
      by (simp add: single_java_file)
    have dc: "dedupCorrect ?deps ?out" by (rule dedup_library)
    from dc ex obtain d where d: "d \<in> set ?out" "serviceName d = serviceName (provided f)"
      unfolding dedupCorrect_def by blast
    from dc d(1) have din: "d \<in> set ?deps"
      and mx: "\<forall>c \<in> set ?deps. serviceName c = serviceName d
          \<longrightarrow> confidenceRank (confidence c) \<le> confidenceRank (confidence d)"
      unfolding dedupCorrect_def by blast+
    from mx ex d(2) have "confidenceRank (confidence (provided f)) \<le> confidenceRank (confidence d)"
      by simp
    then have h: "confidence d = high"
      by (simp add: provided_def rank_high)
    from din h have "source d = client_class" by (rule java_high_source)
    with d h show "\<exists>d \<in> set (dependencies (analyzeServiceDependencies lc [f])).
        serviceName d = ''XBTBookingMgmtService'' \<and> source d = client_class \<and> confidence d = high"
      unfolding out by (auto simp: provided_def)
  }
  {
    assume a: "language f = ''java'' \<and> pre = [] \<and> post = []"
    with assms have c: "content f = content scenarioFile"
      by (simp add: scenarioSnippet_def scenarioFile_def)
    have strip: "(stripSuffix ''ServiceClient'' \<circ> stripSuffix ''Client'') ''XBTBookingMgmtServiceClient''
        = ''XBTBookingMgmtService''"
      by code_simp
    show e1: "extractJavaDependencies f = [provided f]"
      using strip scenario_name_valid
      by (simp add: extractJavaDependencies_def collect_def c scenario_provides
          scenario_clientBuilder scenario_javaImport foundIn_def provided_def)
    have "includesStr (toLowerCase (substring0 (content scenarioFile) 3000)) ''@provides''"
      by code_simp
    then have "0 < score f"
      by (intro score_provides_preview) (simp add: c)
    with a have "dependencies (analyzeServiceDependencies lc [f])
        = deduplicateAndClean lc (extractJavaDependencies f)"
      by (simp add: single_java_file)
    then show "dependencies (analyzeServiceDependencies lc [f]) = [provided f]"
      by (simp add: e1 deduplicateAndClean_def dedupStep_def mapValues_def jsSort_def)
  }
qed

lemma nested_score: "score nestedFile = 60"
  by code_simp

lemma nested_selected:
  "selectKeyFiles [httpFile, nestedFile] (detectPrimaryLanguage [httpFile, nestedFile])
   = [nestedFile, httpFile]"
  by (simp add: selectKeyFiles_def scored_def jsSort_def nested_score score_http)

theorem scenario_A_witness:
  "content nestedFile = ''class ClientModule { @Provides @Singleton '' @ scenarioSnippet @ '' }''
   \<and> provided nestedFile \<in> set (extractJavaDependencies nestedFile)
   \<and> language nestedFile = ''java''
   \<and> nestedFile \<in> set (selectKeyFiles [httpFile, nestedFile]
         (detectPrimaryLanguage [httpFile, nestedFile]))
   \<and> (\<exists>d \<in> set (dependencies (analyzeServiceDependencies codeUnitCompare [httpFile, nestedFile])).
         serviceName d = ''XBTBookingMgmtService'' \<and> confidence d = high)
   \<and> 0 < score nestedFile
   \<and> (\<exists>d \<in> set (dependencies (analyzeServiceDependencies codeUnitCompare [nestedFile])).
         serviceName d = ''XBTBookingMgmtService'' \<and> source d = client_class
         \<and> confidence d = high)
   \<and> content scenarioFile = [] @ scenarioSnippet @ []
   \<and> language scenarioFile = ''java''
   \<and> extractJavaDependencies scenarioFile = [provided scenarioFile]
   \<and> dependencies (analyzeServiceDependencies codeUnitCompare [scenarioFile])
       = [provided scenarioFile]"
proof -
  have cn: "content nestedFile
      = ''class ClientModule { @Provides @Singleton '' @ scenarioSnippet @ '' }''"
    by (simp add: nestedFile_def)
  have ln: "language nestedFile = ''java''" by (simp add: nestedFile_def)
  have sn: "0 < score nestedFile" by (simp add: nested_score)
  have kn: "nestedFile \<in> set (selectKeyFiles [httpFile, nestedFile]
      (detectPrimaryLanguage [httpFile, nestedFile]))"
    by (simp add: nested_selected)
  have cs: "content scenarioFile = [] @ scenarioSnippet @ []"
    by (simp add: scenarioFile_def scenarioSnippet_def)
  have ls: "language scenarioFile = ''java''" by (simp add: scenarioFile_def)
  from scenario_A[OF cn, of "[httpFile, nestedFile]" codeUnitCompare]
    scenario_A[OF cs, of "[scenarioFile]" codeUnitCompare] cn ln sn kn cs ls
  show ?thesis by blast
qed

lemma blank_preview_excludes:
  assumes "c \<in> set p" "c \<noteq> CHR '' ''"
  shows "\<not> includesStr (replicate n CHR '' '') p"
proof
  assume "includesStr (replicate n CHR '' '') p"
  then have "set p \<subseteq> set (replicate n CHR '' '')" by (rule includesStr_set)
  with assms(1) have "c \<in> set (replicate n CHR '' '')" by blast
  with assms(2) show False by simp
qed

lemma far_preview:
  "toLowerCase (substring0 (content farFile) 3000) = replicate 3000 CHR '' ''"
proof -
  have "toLowerChar CHR '' '' = CHR '' ''" by code_simp
  then show ?thesis
    by (simp add: farFile_def substring0_def toLowerCase_def)
qed

lemma far_name: "toLowerCase (name farFile) = ''wiring.java''"
proof -
  have "toLowerCase ''Wiring.java'' = ''wiring.java''" by code_simp
  then show ?thesis by (simp add: farFile_def)
qed

lemma far_path: "toLowerCase (path farFile) = ''ordergateway/src/wiring.java''"
proof -
  have "toLowerCase ''OrderGateway/src/Wiring.java'' = ''ordergateway/src/wiring.java''"
    by code_simp
  then show ?thesis by (simp add: farFile_def)
qed

lemma far_path_signals:
  "\<not> includesStr ''ordergateway/src/wiring.java'' ''/module/''"
  "\<not> includesStr ''ordergateway/src/wiring.java'' ''/config/''"
  "\<not> includesStr ''ordergateway/src/wiring.java'' ''/accessor/''"
  "\<not> includesStr ''ordergateway/src/wiring.java'' ''/client/''"
  by code_simp+

lemma far_name_signals:
  "\<not> includesStr ''wiring.java'' ''clientmodule''"
  "\<not> includesStr ''wiring.java'' ''client''"
  "\<not> endsWith ''wiring.java'' ''module.java''"
  "\<not> endsWith ''wiring.java'' ''config.java''"
  by code_simp+

lemma far_preview_signals:
  "\<not> includesStr (replicate 3000 CHR '' '') ''@provides''"
  "\<not> includesStr (replicate 3000 CHR '' '') ''@bean''"
  "\<not> includesStr (replicate 3000 CHR '' '') ''clientbuilder''"
  "\<not> includesStr (replicate 3000 CHR '' '') ''client;''"
  by (rule blank_preview_excludes[where c="CHR ''e''"]; simp)+

lemma far_score: "score farFile = 0"
proof -
  have "size_bytes farFile = 100062" by (simp add: farFile_def)
  then show ?thesis
    unfolding score_def Let_def far_preview far_name far_path
    using far_path_signals far_name_signals far_preview_signals
    by simp
qed

text \<open>
  The claim as stated fails: extraction reads the selected key files only. A file of
  language \<open>java\<close> with the text after 100000 blanks, of that size and with no signal in its
  name or path, has score 0; the Java extraction finds the candidate in it, but the
  analysis of the file has no dependency.
\<close>

theorem snippet_beyond_preview_is_lost:
  "content farFile = replicate 100000 CHR '' '' @ scenarioSnippet @ []
   \<and> language farFile = ''java''
   \<and> provided farFile \<in> set (extractJavaDependencies farFile)
   \<and> dependencies (analyzeServiceDependencies codeUnitCompare [farFile]) = []"
proof -
  have c: "content farFile = replicate 100000 CHR '' '' @ scenarioSnippet @ []"
    by (simp add: farFile_def)
  have l: "language farFile = ''java''" by (simp add: farFile_def)
  from c have e: "provided farFile \<in> set (extractJavaDependencies farFile)"
    by (rule provided_extracted)
  have "selectKeyFiles [farFile] lang = []" for lang
    by (simp add: selectKeyFiles_def scored_def far_score jsSort_def)
  then have "dependencies (analyzeServiceDependencies codeUnitCompare [farFile]) = []"
    by (simp add: analyzeServiceDependencies_def Let_def extractDependencies_def
        deduplicateAndClean_def mapValues_def jsSort_def)
  with c l e show ?thesis by blast
qed

section \<open>The primary language\<close>

lemma mapGet_countStep:
  "mapGet (countStep f m) l = (if l = language f then Some (countOf m l + 1) else mapGet m l)"
  by (simp add: countStep_def mapGet_mapSet countOf_def)

lemma tagCount_Cons:
  "tagCount l (f # files) = (if language f = l then 1 else 0) + tagCount l files"
  by (simp add: tagCount_def)

lemma mapGet_fold_countStep:
  "mapGet (fold countStep files m) l =
     (if 0 < tagCount l files \<or> mapGet m l \<noteq> None
      then Some (countOf m l + int (tagCount l files)) else None)"
proof (induction files arbitrary: m)
  case Nil
  show ?case by (cases "mapGet m l") (simp_all add: tagCount_def countOf_def)
next
  case (Cons f files)
  have "mapGet (fold countStep (f # files) m) l = mapGet (fold countStep files (countStep f m)) l"
    by simp
  also have "\<dots> = (if 0 < tagCount l files \<or> mapGet (countStep f m) l \<noteq> None
      then Some (countOf (countStep f m) l + int (tagCount l files)) else None)"
    by (rule Cons.IH)
  also have "\<dots> = (if 0 < tagCount l (f # files) \<or> mapGet m l \<noteq> None
      then Some (countOf m l + int (tagCount l (f # files))) else None)"
  proof (cases "l = language f")
    case True
    then show ?thesis
      by (simp add: mapGet_countStep tagCount_Cons countOf_def)
  next
    case False
    then have "language f \<noteq> l" by blast
    with False show ?thesis
      by (simp add: mapGet_countStep tagCount_Cons countOf_def)
  qed
  finally show ?case .
qed


lemma distinct_countStep: "distinct (map fst m) \<Longrightarrow> distinct (map fst (countStep f m))"
  by (simp add: countStep_def distinct_mapSet)

lemma distinct_fold_countStep:
  "distinct (map fst m) \<Longrightarrow> distinct (map fst (fold countStep files m))"
proof (induction files arbitrary: m)
  case Nil
  then show ?case by simp
next
  case (Cons f files)
  from Cons.IH[OF distinct_countStep[OF Cons.prems]] show ?case by simp
qed

lemma langCounts_entry:
  "(l, n) \<in> set (fold countStep files []) \<longleftrightarrow> 0 < tagCount l files \<and> n = int (tagCount l files)"
proof -
  let ?m = "fold countStep files []"
  have d: "distinct (map fst ?m)" by (rule distinct_fold_countStep) simp
  have "(l, n) \<in> set ?m \<longleftrightarrow> mapGet ?m l = Some n"
  proof
    assume "(l, n) \<in> set ?m"
    with d show "mapGet ?m l = Some n" by (rule mem_mapGet)
  next
    assume "mapGet ?m l = Some n"
    then show "(l, n) \<in> set ?m" by (rule mapGet_Some_mem)
  qed
  also have "\<dots> \<longleftrightarrow> 0 < tagCount l files \<and> n = int (tagCount l files)"
    unfolding mapGet_fold_countStep by (auto simp: countOf_def)
  finally show ?thesis .
qed

lemma detectPrimaryLanguage_mostFrequent:
  assumes "mostFrequent l files" "l \<noteq> []"
  shows "detectPrimaryLanguage files = l"
proof -
  let ?m = "fold countStep files []"
  let ?S = "sort_key (\<lambda>p. - snd p) ?m"
  from assms(1) have pos: "0 < tagCount l files" by (simp add: mostFrequent_def)
  then have mem: "(l, int (tagCount l files)) \<in> set ?S"
    by (simp add: langCounts_entry)
  then obtain h rest where S: "?S = h # rest" by (cases ?S) auto
  obtain l' n' where h: "h = (l', n')" by (cases h)
  have "sorted (map (\<lambda>p. - snd p) ?S)" by (rule sorted_sort_key)
  with S mem have "- snd h \<le> - int (tagCount l files)" by (auto simp: S)
  then have ge: "int (tagCount l files) \<le> n'" by (simp add: h)
  have "h \<in> set ?S" by (simp add: S)
  then have "h \<in> set ?m" by simp
  then have e: "0 < tagCount l' files" "n' = int (tagCount l' files)"
    by (simp_all add: h langCounts_entry)
  have "l' = l"
  proof (rule ccontr)
    assume ne: "l' \<noteq> l"
    from e(1) obtain f where "f \<in> set files" "language f = l'"
      by (auto simp: tagCount_def filter_empty_conv)
    with assms(1) ne have "tagCount l' files < tagCount l files"
      by (auto simp: mostFrequent_def)
    with ge e(2) show False by simp
  qed
  then show ?thesis
    using assms(2) by (simp add: detectPrimaryLanguage_def jsSort_by_score S h)
qed

lemma extractFile_java: "set (extractJavaDependencies f) \<subseteq> set (extractFile ''java'' f)"
  by (simp add: extractFile_def)

lemma extractFile_python: "set (extractPythonDependencies f) \<subseteq> set (extractFile ''python'' f)"
  by (auto simp: extractFile_def)

lemma score_ts: "score tsFile = 5"
  by code_simp

lemma score_notes: "score notesFile = 5"
  by code_simp

lemma score_py: "score pyFile = 0"
  by code_simp

lemma ts_java_rules: "map serviceName (extractJavaDependencies tsFile) = [''LedgerService'']"
  by code_simp

lemma notes_python_rules: "map serviceName (extractPythonDependencies notesFile) = [''Billing'']"
  by code_simp

lemma ts_javascript_rules: "extractJavaScriptDependencies tsFile = []"
  by code_simp

text \<open>
  Claim C10. In the library pipeline, when \<open>java\<close> is the most frequent language tag of the
  input files, the primary language is \<open>java\<close> and the candidates of the Java rules on every
  selected key file, whatever the language tag of that file, are among the extracted
  candidates; likewise for \<open>python\<close> and the Python rule. The language tags are taken not
  to be names that an object inherits, for which \<open>langCounts\<close> would not count.
\<close>

theorem primary_language_selects_rules:
  "(mostFrequent ''java'' files \<and> plainTags files \<longrightarrow>
      detectPrimaryLanguage files = ''java''
      \<and> (\<forall>f \<in> set (selectKeyFiles files (detectPrimaryLanguage files)).
            set (extractJavaDependencies f)
            \<subseteq> set (extractDependencies (selectKeyFiles files (detectPrimaryLanguage files))
                  (detectPrimaryLanguage files))))
   \<and> (mostFrequent ''python'' files \<and> plainTags files \<longrightarrow>
      detectPrimaryLanguage files = ''python''
      \<and> (\<forall>f \<in> set (selectKeyFiles files (detectPrimaryLanguage files)).
            set (extractPythonDependencies f)
            \<subseteq> set (extractDependencies (selectKeyFiles files (detectPrimaryLanguage files))
                  (detectPrimaryLanguage files))))"
proof (intro conjI impI)
  assume "mostFrequent ''java'' files \<and> plainTags files"
  then have m: "mostFrequent ''java'' files" by blast
  then show p: "detectPrimaryLanguage files = ''java''"
    by (rule detectPrimaryLanguage_mostFrequent) simp
  show "\<forall>f \<in> set (selectKeyFiles files (detectPrimaryLanguage files)).
      set (extractJavaDependencies f)
      \<subseteq> set (extractDependencies (selectKeyFiles files (detectPrimaryLanguage files))
            (detectPrimaryLanguage files))"
    unfolding p using extractFile_java by (fastforce simp: extractDependencies_def)
next
  assume "mostFrequent ''python'' files \<and> plainTags files"
  then have m: "mostFrequent ''python'' files" by blast
  then show p: "detectPrimaryLanguage files = ''python''"
    by (rule detectPrimaryLanguage_mostFrequent) simp
  show "\<forall>f \<in> set (selectKeyFiles files (detectPrimaryLanguage files)).
      set (extractPythonDependencies f)
      \<subseteq> set (extractDependencies (selectKeyFiles files (detectPrimaryLanguage files))
            (detectPrimaryLanguage files))"
    unfolding p using extractFile_python by (fastforce simp: extractDependencies_def)
qed

theorem primary_language_selects_rules_witness:
  "mostFrequent ''java'' [tsFile, scenarioFile, httpFile]
   \<and> plainTags [tsFile, scenarioFile, httpFile]
   \<and> language tsFile = ''typescript''
   \<and> tsFile \<in> set (selectKeyFiles [tsFile, scenarioFile, httpFile] ''java'')
   \<and> map serviceName (extractJavaDependencies tsFile) = [''LedgerService'']
   \<and> extractJavaScriptDependencies tsFile = []
   \<and> set (extractJavaDependencies tsFile)
       \<subseteq> set (extractDependencies (selectKeyFiles [tsFile, scenarioFile, httpFile] ''java'') ''java'')
   \<and> mostFrequent ''python'' [notesFile, pyFile, pyFile]
   \<and> plainTags [notesFile, pyFile, pyFile]
   \<and> language notesFile = ''typescript''
   \<and> notesFile \<in> set (selectKeyFiles [notesFile, pyFile, pyFile] ''python'')
   \<and> map serviceName (extractPythonDependencies notesFile) = [''Billing'']
   \<and> set (extractPythonDependencies notesFile)
       \<subseteq> set (extractDependencies (selectKeyFiles [notesFile, pyFile, pyFile] ''python'') ''python'')"
proof -
  have j: "mostFrequent ''java'' [tsFile, scenarioFile, httpFile]"
    by (simp add: mostFrequent_def tagCount_def tsFile_def scenarioFile_def httpFile_def)
  have p: "mostFrequent ''python'' [notesFile, pyFile, pyFile]"
    by (simp add: mostFrequent_def tagCount_def notesFile_def pyFile_def)
  have tj: "plainTags [tsFile, scenarioFile, httpFile]"
    by (simp add: plainTags_def objectPrototypeNames_def tsFile_def scenarioFile_def httpFile_def)
  have tp: "plainTags [notesFile, pyFile, pyFile]"
    by (simp add: plainTags_def objectPrototypeNames_def notesFile_def pyFile_def)
  have kj: "selectKeyFiles [tsFile, scenarioFile, httpFile] ''java'' = [scenarioFile, tsFile, httpFile]"
    by (simp add: selectKeyFiles_def scored_def jsSort_def score_ts scenario_score score_http)
  have kp: "selectKeyFiles [notesFile, pyFile, pyFile] ''python'' = [notesFile]"
    by (simp add: selectKeyFiles_def scored_def jsSort_def score_notes score_py)
  have l: "language tsFile = ''typescript''" "language notesFile = ''typescript''"
    by (simp_all add: tsFile_def notesFile_def)
  from primary_language_selects_rules[of "[tsFile, scenarioFile, httpFile]"] j tj
  have dj: "detectPrimaryLanguage [tsFile, scenarioFile, httpFile] = ''java''"
    and aj: "\<forall>f \<in> set (selectKeyFiles [tsFile, scenarioFile, httpFile]
                 (detectPrimaryLanguage [tsFile, scenarioFile, httpFile])).
        set (extractJavaDependencies f)
        \<subseteq> set (extractDependencies (selectKeyFiles [tsFile, scenarioFile, httpFile]
               (detectPrimaryLanguage [tsFile, scenarioFile, httpFile]))
             (detectPrimaryLanguage [tsFile, scenarioFile, httpFile]))"
    by blast+
  from primary_language_selects_rules[of "[notesFile, pyFile, pyFile]"] p tp
  have dp: "detectPrimaryLanguage [notesFile, pyFile, pyFile] = ''python''"
    and ap: "\<forall>f \<in> set (selectKeyFiles [notesFile, pyFile, pyFile]
                 (detectPrimaryLanguage [notesFile, pyFile, pyFile])).
        set (extractPythonDependencies f)
        \<subseteq> set (extractDependencies (selectKeyFiles [notesFile, pyFile, pyFile]
               (detectPrimaryLanguage [notesFile, pyFile, pyFile]))
             (detectPrimaryLanguage [notesFile, pyFile, pyFile]))"
    by blast+
  have sj: "set (extractJavaDependencies tsFile)
       \<subseteq> set (extractDependencies (selectKeyFiles [tsFile, scenarioFile, httpFile] ''java'') ''java'')"
    using aj unfolding dj by (simp add: kj)
  have sp: "set (extractPythonDependencies notesFile)
       \<subseteq> set (extractDependencies (selectKeyFiles [notesFile, pyFile, pyFile] ''python'') ''python'')"
    using ap unfolding dp by (simp add: kp)
  have mj: "tsFile \<in> set (selectKeyFiles [tsFile, scenarioFile, httpFile] ''java'')"
    by (simp add: kj)
  have mp: "notesFile \<in> set (selectKeyFiles [notesFile, pyFile, pyFile] ''python'')"
    by (simp add: kp)
  from j p tj tp l ts_java_rules notes_python_rules ts_javascript_rules sj sp mj mp
  show ?thesis by blast
qed


section \<open>Ignore rules\<close>

text \<open>
  The scan of the command-line tool does not depend on anything under a directory with
  an ignored name: removing all such directories from the tree leaves its result as it is.
  The filter of the upload component ignores a path under a directory that its list names.
\<close>

lemma scanDirectory_append: "scanDirectory rel (xs @ ys) = scanDirectory rel xs @ scanDirectory rel ys"
  by (induction xs) simp_all

lemma scan_prune:
  "scanDirectory rel (prune e) = scanEntry rel e"
  "scanDirectory rel (pruneAll es) = scanDirectory rel es"
  by (induction e and es arbitrary: rel and rel rule: prune_pruneAll.induct)
     (simp_all add: scanDirectory_append)

lemma scan_ignored_directory:
  "d \<in> set IGNORE_DIRS \<Longrightarrow>
   scanDirectory rel (before @ Dir d entries # after) = scanDirectory rel (before @ after)"
  by (simp add: scanDirectory_append)

lemma includesStr_prefix: "prefix p s \<Longrightarrow> includesStr s p"
  by (cases s) simp_all

lemma includesStr_append: "includesStr (a @ p @ b) p"
  by (induction a) (simp_all add: includesStr_prefix)

lemma shouldIgnore_listed:
  assumes "d \<in> set IGNORE_PATTERNS"
  shows "shouldIgnore (a @ ''/'' @ d @ ''/'' @ b) \<and> shouldIgnore (d @ ''/'' @ b)"
proof
  have "includesStr (a @ (''/'' @ d @ ''/'') @ b) (''/'' @ d @ ''/'')"
    by (rule includesStr_append)
  then have "includesStr (a @ ''/'' @ d @ ''/'' @ b) (''/'' @ d @ ''/'')"
    by simp
  with assms show "shouldIgnore (a @ ''/'' @ d @ ''/'' @ b)"
    unfolding shouldIgnore_def list_ex_iff by blast
  have "startsWith (d @ ''/'' @ b) (d @ ''/'')"
    by (simp add: startsWith_def)
  with assms show "shouldIgnore (d @ ''/'' @ b)"
    unfolding shouldIgnore_def list_ex_iff by blast
qed

text \<open>
  Claim C7. The list of the upload component lacks the name \<open>out\<close>, which the lists of
  the command-line tool and of the analysis route have: a file \<open>proj/out/Gen.java\<close> passes
  the filter of the folder upload, while the scan of the command-line tool skips it.
\<close>

theorem upload_keeps_out_directory:
  "folderUploadKeeps ''proj/out/Gen.java'' ''Gen.java'' 120
   \<and> \<not> shouldIgnore ''proj/out/Gen.java''
   \<and> ''out'' \<in> set IGNORE_DIRS
   \<and> ''out'' \<notin> set IGNORE_PATTERNS
   \<and> scanDirectory [] [Dir ''proj'' [Dir ''out'' [File ''Gen.java'' (Some (120, ''class Gen {}''))]]] = []"
  by code_simp


end
